theory Spec2Isabelle
  imports Complex_Main
begin

section \<open>Data model (types of the tracker)\<close>

text \<open>
  A JavaScript string is modelled as the list of its Unicode code points, a JavaScript
  number that holds a price or a threshold as a real number. Optional properties
  (\<^verbatim>\<open>listingId?: string\<close>) are \<open>option\<close> values: \<open>None\<close> is \<^verbatim>\<open>undefined\<close>.
\<close>

type_synonym jsstring = "nat list"

definition str :: "string \<Rightarrow> jsstring" where
  "str s = map of_char s"

record SkinData =
  timestamp :: jsstring
  price :: real
  currency :: jsstring
  listingId :: "jsstring option"
  sellerId :: "jsstring option"
  sellerName :: "jsstring option"
  expired :: "bool option"

record Thresholds =
  high :: "real option"
  low :: "real option"

record Skin =
  name :: jsstring
  exterior :: jsstring
  url :: jsstring
  skindata :: "SkinData list"
  thresholds :: "Thresholds option"

record TrackermanData =
  skins :: "Skin list"
  lastUpdated :: jsstring

datatype error = Error jsstring

record AutoSchedulerSettings =
  enabled :: bool
  intervalMinutes :: real
  lastRun :: "jsstring option"

record DiscordNotificationSettings =
  discordEnabled :: bool
  webhookUrl :: "jsstring option"
  priceUpdate :: bool
  thresholdHigh :: bool
  thresholdLow :: bool

record ScrapingSettings =
  timeoutMs :: real
  delayBetweenRequests :: real
  maxRetries :: real

record LoggingSettings =
  loggingEnabled :: bool
  logFile :: "jsstring option"

record TrackermanSettings =
  autoScheduler :: AutoSchedulerSettings
  discord :: DiscordNotificationSettings
  scraping :: ScrapingSettings
  logging :: "LoggingSettings option"

text \<open>
  \<^verbatim>\<open>SteamMarketItem\<close> shares its property names with \<^verbatim>\<open>SkinData\<close> and \<^verbatim>\<open>Skin\<close>;
  its fields carry the prefix \<open>item\<close> here.
\<close>

record SteamMarketItem =
  itemName :: jsstring
  itemExterior :: jsstring
  itemPrice :: real
  itemCurrency :: jsstring
  itemListingId :: "jsstring option"
  itemSellerId :: "jsstring option"
  itemSellerName :: "jsstring option"

datatype priceType = lowest | highest

record ScrapingOptions =
  priceType :: priceType
  count :: int
  exteriorFilter :: "jsstring option"

section \<open>Snapshot store (DataManager)\<close>

text \<open>
  The data manager keeps one in-memory document and writes it out after every mutation;
  \<^verbatim>\<open>saveData\<close> stamps \<^verbatim>\<open>lastUpdated\<close> with the current time, which every mutating
  operation below receives as its first argument. Reading and writing the file itself is
  outside the model.
\<close>

definition sameSkin :: "jsstring \<Rightarrow> jsstring \<Rightarrow> Skin \<Rightarrow> bool" where
  "sameSkin n e s \<longleftrightarrow> name s = n \<and> exterior s = e"

definition getSkins :: "TrackermanData \<Rightarrow> Skin list" where
  "getSkins d = skins d"

definition getSkin :: "TrackermanData \<Rightarrow> jsstring \<Rightarrow> jsstring \<Rightarrow> Skin option" where
  "getSkin d n e = find (sameSkin n e) (skins d)"

text \<open>\<^verbatim>\<open>!data.expired\<close>: an absent flag counts as not expired.\<close>

definition isExpired :: "SkinData \<Rightarrow> bool" where
  "isExpired x \<longleftrightarrow> expired x = Some True"

definition activeOnly :: "Skin \<Rightarrow> Skin" where
  "activeOnly s = s\<lparr>skindata := filter (\<lambda>x. \<not> isExpired x) (skindata s)\<rparr>"

definition getActiveSkin :: "TrackermanData \<Rightarrow> jsstring \<Rightarrow> jsstring \<Rightarrow> Skin option" where
  "getActiveSkin d n e = map_option activeOnly (getSkin d n e)"

definition getActiveSkins :: "TrackermanData \<Rightarrow> Skin list" where
  "getActiveSkins d = map activeOnly (skins d)"

text \<open>
  \<^verbatim>\<open>getSkin\<close> returns a reference to the first matching element of the array and the
  callers mutate that object in place: the model rewrites the first matching element.
\<close>

fun updateFirst :: "('a \<Rightarrow> bool) \<Rightarrow> ('a \<Rightarrow> 'a) \<Rightarrow> 'a list \<Rightarrow> 'a list" where
  "updateFirst P f [] = []"
| "updateFirst P f (x # xs) = (if P x then f x # xs else x # updateFirst P f xs)"

definition expire :: "SkinData \<Rightarrow> SkinData" where
  "expire x = x\<lparr>expired := Some True\<rparr>"

definition pushData :: "SkinData \<Rightarrow> jsstring \<Rightarrow> Skin \<Rightarrow> Skin" where
  "pushData sd u s =
     s\<lparr>skindata := map expire (skindata s) @ [sd\<lparr>expired := Some False\<rparr>], url := u\<rparr>"

definition addSkinData ::
  "jsstring \<Rightarrow> TrackermanData \<Rightarrow> jsstring \<Rightarrow> jsstring \<Rightarrow> SkinData \<Rightarrow> jsstring \<Rightarrow> TrackermanData"
where
  "addSkinData now d n e sd u =
     (case getSkin d n e of
        Some existingSkin \<Rightarrow>
          d\<lparr>skins := updateFirst (sameSkin n e) (pushData sd u) (skins d), lastUpdated := now\<rparr>
      | None \<Rightarrow>
          d\<lparr>skins := skins d @
                 [\<lparr>name = n, exterior = e, url = u,
                   skindata = [sd\<lparr>expired := Some False\<rparr>], thresholds = None\<rparr>],
            lastUpdated := now\<rparr>)"

definition alreadyExists :: "Skin \<Rightarrow> jsstring" where
  "alreadyExists s =
     str ''Skin '' @ name s @ str '' ('' @ exterior s @ str '') already exists''"

definition addSkin :: "jsstring \<Rightarrow> TrackermanData \<Rightarrow> Skin \<Rightarrow> error + TrackermanData" where
  "addSkin now d skin =
     (case getSkin d (name skin) (exterior skin) of
        Some existingSkin \<Rightarrow> Inl (Error (alreadyExists skin))
      | None \<Rightarrow> Inr (d\<lparr>skins := skins d @ [skin], lastUpdated := now\<rparr>))"

definition removeSkin :: "jsstring \<Rightarrow> TrackermanData \<Rightarrow> jsstring \<Rightarrow> jsstring \<Rightarrow> TrackermanData" where
  "removeSkin now d n e =
     d\<lparr>skins := filter (\<lambda>skin. \<not> (name skin = n \<and> exterior skin = e)) (skins d),
       lastUpdated := now\<rparr>"

text \<open>Appending a sequence of observations, each with its URL and its save time.\<close>

fun appendAll ::
  "TrackermanData \<Rightarrow> jsstring \<Rightarrow> jsstring \<Rightarrow> (SkinData \<times> jsstring \<times> jsstring) list \<Rightarrow> TrackermanData"
where
  "appendAll d n e [] = d"
| "appendAll d n e ((sd, u, now) # rest) = appendAll (addSkinData now d n e sd u) n e rest"

section \<open>Change and threshold detection, notification calls\<close>

datatype thresholdType = High | Low

datatype Notification =
  PriceUpdate Skin SkinData
| Threshold Skin SkinData thresholdType

text \<open>
  \<^verbatim>\<open>skin.thresholds.high && price >= skin.thresholds.high\<close>: the bound must be present and
  truthy, so a bound of 0 counts as absent.
\<close>

definition highHit :: "Thresholds \<Rightarrow> real \<Rightarrow> bool" where
  "highHit t p = (case high t of None \<Rightarrow> False | Some h \<Rightarrow> h \<noteq> 0 \<and> p \<ge> h)"

definition lowHit :: "Thresholds \<Rightarrow> real \<Rightarrow> bool" where
  "lowHit t p = (case low t of None \<Rightarrow> False | Some l \<Rightarrow> l \<noteq> 0 \<and> p \<le> l)"

definition thresholdCalls :: "Skin \<Rightarrow> SkinData \<Rightarrow> real \<Rightarrow> Notification list" where
  "thresholdCalls skin newData p =
     (case thresholds skin of
        None \<Rightarrow> []
      | Some t \<Rightarrow>
          (if highHit t p then [Threshold skin newData High] else []) @
          (if lowHit t p then [Threshold skin newData Low] else []))"

text \<open>
  The notifier throws when the webhook call fails, and both callers run all their
  notifier calls inside one \<^verbatim>\<open>try\<close>: the calls are made in order up to and including the
  first one that throws. \<open>deliver\<close> tells whether a call returns normally. The result is
  the list of calls made and whether all of them returned.
\<close>

fun sendAll :: "(Notification \<Rightarrow> bool) \<Rightarrow> Notification list \<Rightarrow> Notification list \<times> bool" where
  "sendAll deliver [] = ([], True)"
| "sendAll deliver (x # xs) =
     (if deliver x then (x # fst (sendAll deliver xs), snd (sendAll deliver xs))
      else ([x], False))"

text \<open>
  \<^verbatim>\<open>TrackermanService.checkAndSendNotifications\<close>, called with the item as it is after the
  append: the previous observation is the one before the last.
\<close>

definition plannedNotifications :: "Skin \<Rightarrow> SkinData \<Rightarrow> Notification list" where
  "plannedNotifications skin newData =
     (if length (skindata skin) > 1
      then (let previousData = skindata skin ! (length (skindata skin) - 2) in
            if price previousData \<noteq> price newData then [PriceUpdate skin newData] else [])
      else []) @
     thresholdCalls skin newData (price newData)"

definition checkAndSendNotifications ::
  "(Notification \<Rightarrow> bool) \<Rightarrow> Skin \<Rightarrow> SkinData \<Rightarrow> Notification list" where
  "checkAndSendNotifications deliver skin newData =
     fst (sendAll deliver (plannedNotifications skin newData))"

text \<open>
  The scheduler's own checks (\<^verbatim>\<open>executeScheduledFetch\<close>): \<open>before\<close> is the tracked item as
  read before the append, \<open>after\<close> the same object once \<^verbatim>\<open>addSkinData\<close> has run.
\<close>

definition priceChanged :: "Skin \<Rightarrow> real \<Rightarrow> bool" where
  "priceChanged before p =
     (case skindata before of
        [] \<Rightarrow> True
      | _ # _ \<Rightarrow> price (last (skindata before)) \<noteq> p)"

definition scheduledNotifications :: "Skin \<Rightarrow> Skin \<Rightarrow> SkinData \<Rightarrow> real \<Rightarrow> Notification list" where
  "scheduledNotifications before after skinData p =
     (if priceChanged before p then [PriceUpdate after skinData] else []) @
     thresholdCalls after skinData p"

section \<open>Strings\<close>

text \<open>
  The JavaScript string operations the scraper uses, on code points. The regular
  expressions of the source carry no \<^verbatim>\<open>u\<close> flag except the currency test; on what they
  match here (ASCII classes and ASCII literals) code units and code points agree.
\<close>

definition isDigit :: "nat \<Rightarrow> bool" where
  "isDigit c \<longleftrightarrow> 48 \<le> c \<and> c \<le> 57"

text \<open>\<^verbatim>\<open>\w\<close>: ASCII letters, digits and the underscore.\<close>

definition isWordChar :: "nat \<Rightarrow> bool" where
  "isWordChar c \<longleftrightarrow> isDigit c \<or> (65 \<le> c \<and> c \<le> 90) \<or> (97 \<le> c \<and> c \<le> 122) \<or> c = 95"

text \<open>\<^verbatim>\<open>\s\<close> and the characters \<^verbatim>\<open>trim\<close> strips: ECMAScript white space and line terminators.\<close>

definition isSpace :: "nat \<Rightarrow> bool" where
  "isSpace c \<longleftrightarrow>
     (9 \<le> c \<and> c \<le> 13) \<or> c = 32 \<or> c = 160 \<or> c = 5760 \<or> (8192 \<le> c \<and> c \<le> 8202) \<or>
     c = 8232 \<or> c = 8233 \<or> c = 8239 \<or> c = 8287 \<or> c = 12288 \<or> c = 65279"

definition trim :: "jsstring \<Rightarrow> jsstring" where
  "trim s = rev (dropWhile isSpace (rev (dropWhile isSpace s)))"

text \<open>
  \<^verbatim>\<open>replace(/\s+/g, ' ')\<close>: every maximal run of white space becomes one space. The flag
  tells whether the previous character belonged to a run.
\<close>

fun collapseFrom :: "bool \<Rightarrow> jsstring \<Rightarrow> jsstring" where
  "collapseFrom inRun [] = []"
| "collapseFrom inRun (c # cs) =
     (if isSpace c then (if inRun then collapseFrom True cs else 32 # collapseFrom True cs)
      else c # collapseFrom False cs)"

definition collapseSpaces :: "jsstring \<Rightarrow> jsstring" where
  "collapseSpaces s = collapseFrom False s"

text \<open>
  \<^verbatim>\<open>toLowerCase\<close>. ASCII capitals are lowered; U+0130 becomes i followed by U+0307 and
  U+212A (Kelvin sign) becomes k: these are the only code points outside ASCII whose
  lower case contains an ASCII character. Every other code point is carried over
  unchanged, where JavaScript may put another code point outside ASCII; the scraper only
  compares lowered strings with lowered ASCII literals, which cannot tell the difference.
\<close>

definition lowerCodePoint :: "nat \<Rightarrow> jsstring" where
  "lowerCodePoint c =
     (if 65 \<le> c \<and> c \<le> 90 then [c + 32]
      else if c = 304 then [105, 775]
      else if c = 8490 then [107]
      else [c])"

definition toLowerCase :: "jsstring \<Rightarrow> jsstring" where
  "toLowerCase s = concat (map lowerCodePoint s)"

fun startsWith :: "jsstring \<Rightarrow> jsstring \<Rightarrow> bool" where
  "startsWith s [] = True"
| "startsWith [] (p # ps) = False"
| "startsWith (c # cs) (p # ps) = (c = p \<and> startsWith cs ps)"

fun stringIncludes :: "jsstring \<Rightarrow> jsstring \<Rightarrow> bool" where
  "stringIncludes [] p = (p = [])"
| "stringIncludes (c # cs) p = (startsWith (c # cs) p \<or> stringIncludes cs p)"

text \<open>
  Matching with the \<^verbatim>\<open>i\<close> flag and no \<^verbatim>\<open>u\<close> flag: two characters match when their
  canonical forms are equal. The canonical form of an ASCII letter is its capital; a
  character outside ASCII never has an ASCII canonical form, so against the ASCII
  patterns used here it only matches itself.
\<close>

definition canonicalize :: "nat \<Rightarrow> nat" where
  "canonicalize c = (if 97 \<le> c \<and> c \<le> 122 then c - 32 else c)"

fun matchesIgnoreCase :: "jsstring \<Rightarrow> jsstring \<Rightarrow> bool" where
  "matchesIgnoreCase [] s = True"
| "matchesIgnoreCase (p # ps) [] = False"
| "matchesIgnoreCase (p # ps) (c # cs) =
     (canonicalize c = canonicalize p \<and> matchesIgnoreCase ps cs)"

text \<open>
  \<^verbatim>\<open>\b\<close>: exactly one of the characters before and after the position is a word
  character; the ends of the string count as non-word.
\<close>

definition isWordOpt :: "nat option \<Rightarrow> bool" where
  "isWordOpt c = (case c of None \<Rightarrow> False | Some x \<Rightarrow> isWordChar x)"

definition wordBoundary :: "nat option \<Rightarrow> jsstring \<Rightarrow> bool" where
  "wordBoundary prev s = (isWordOpt prev \<noteq> isWordOpt (case s of [] \<Rightarrow> None | c # cs \<Rightarrow> Some c))"

text \<open>Whether \<^verbatim>\<open>\bKW\b\<close> (flag \<^verbatim>\<open>i\<close>) matches at the start of \<open>s\<close>, \<open>prev\<close> being the
  character before it.\<close>

definition keywordAt :: "jsstring \<Rightarrow> nat option \<Rightarrow> jsstring \<Rightarrow> bool" where
  "keywordAt kw prev s \<longleftrightarrow>
     kw \<noteq> [] \<and> wordBoundary prev s \<and> matchesIgnoreCase kw s \<and>
     wordBoundary (Some (s ! (length kw - 1))) (drop (length kw) s)"

text \<open>
  \<^verbatim>\<open>s.replace(new RegExp(`\\b${kw}\\b`, 'gi'), '')\<close> for a keyword of letters, spaces and
  hyphens: the string is scanned from the left, every match is dropped and the scan
  goes on behind it.
\<close>

function removeKeyword :: "jsstring \<Rightarrow> nat option \<Rightarrow> jsstring \<Rightarrow> jsstring" where
  "removeKeyword kw prev [] = []"
| "removeKeyword kw prev (c # cs) =
     (if keywordAt kw prev (c # cs)
      then removeKeyword kw (Some ((c # cs) ! (length kw - 1))) (drop (length kw) (c # cs))
      else c # removeKeyword kw (Some c) cs)"
  by pat_completeness auto
termination
  by (relation "measure (\<lambda>(kw, prev, s). length s)") (auto simp: keywordAt_def)

declare removeKeyword.simps [simp del]

section \<open>Name and exterior classifier\<close>

definition exteriors :: "jsstring list" where
  "exteriors = [str ''Factory New'', str ''Minimal Wear'', str ''Field-Tested'',
                str ''Well-Worn'', str ''Battle-Scarred'']"

text \<open>The loop over \<^verbatim>\<open>exteriors\<close> with its \<^verbatim>\<open>break\<close>: the first keyword that the lowered
  label includes.\<close>

definition findExterior :: "jsstring \<Rightarrow> jsstring option" where
  "findExterior fullName =
     find (\<lambda>ext. stringIncludes (toLowerCase fullName) (toLowerCase ext)) exteriors"

definition extractNameAndExterior :: "jsstring \<Rightarrow> jsstring \<times> jsstring" where
  "extractNameAndExterior fullName =
     (case findExterior fullName of
        Some ext \<Rightarrow> (trim (collapseSpaces (trim (removeKeyword ext None fullName))), ext)
      | None \<Rightarrow> (trim (collapseSpaces fullName), str ''Unknown''))"

section \<open>Price text normalizer\<close>

text \<open>
  \<^verbatim>\<open>parseFloat\<close> on the strings \<^verbatim>\<open>parsePrice\<close> hands to it, which hold digits, commas and
  dots only (no sign, no exponent, no white space): the longest prefix of the form
  digits, optionally a dot and digits, with at least one digit; \<open>None\<close> is \<^verbatim>\<open>NaN\<close>. The
  value is the exact decimal value of that prefix: rounding to the nearest double, and
  overflow to \<^verbatim>\<open>Infinity\<close> for numerals beyond the double range, are outside the model.
\<close>

definition digitValue :: "nat \<Rightarrow> nat" where
  "digitValue c = c - 48"

fun digitsValueFrom :: "nat \<Rightarrow> jsstring \<Rightarrow> nat" where
  "digitsValueFrom acc [] = acc"
| "digitsValueFrom acc (c # cs) = digitsValueFrom (10 * acc + digitValue c) cs"

definition digitsValue :: "jsstring \<Rightarrow> nat" where
  "digitsValue ds = digitsValueFrom 0 ds"

definition parseFloat :: "jsstring \<Rightarrow> real option" where
  "parseFloat s =
     (let intDigits = takeWhile isDigit s;
          rest = dropWhile isDigit s;
          fracDigits = (case rest of [] \<Rightarrow> [] | c # cs \<Rightarrow> if c = 46 then takeWhile isDigit cs else [])
      in if intDigits = [] \<and> fracDigits = [] then None
         else Some (real (digitsValue intDigits) +
                    real (digitsValue fracDigits) / 10 ^ length fracDigits))"

text \<open>\<^verbatim>\<open>replace(/(\d)[\s](\d)/g, '$1$2')\<close>.\<close>

fun joinDigits :: "jsstring \<Rightarrow> jsstring" where
  "joinDigits (a # b # c # cs) =
     (if isDigit a \<and> isSpace b \<and> isDigit c then a # c # joinDigits cs
      else a # joinDigits (b # c # cs))"
| "joinDigits s = s"

definition normalizePriceText :: "jsstring \<Rightarrow> jsstring" where
  "normalizePriceText text =
     joinDigits (filter (\<lambda>c. isDigit c \<or> c = 44 \<or> c = 46) text)"

text \<open>\<^verbatim>\<open>/,\d{2}$/\<close>\<close>

definition endsWithCommaTwoDigits :: "jsstring \<Rightarrow> bool" where
  "endsWithCommaTwoDigits s =
     (case rev s of
        d2 # d1 # c # cs \<Rightarrow> c = 44 \<and> isDigit d1 \<and> isDigit d2
      | _ \<Rightarrow> False)"

text \<open>\<^verbatim>\<open>replace(',', '.')\<close> with a string pattern: the first comma only.\<close>

fun replaceFirstComma :: "jsstring \<Rightarrow> jsstring" where
  "replaceFirstComma [] = []"
| "replaceFirstComma (c # cs) = (if c = 44 then 46 # cs else c # replaceFirstComma cs)"

text \<open>The string that is handed to \<^verbatim>\<open>parseFloat\<close>.\<close>

definition priceNumeral :: "jsstring \<Rightarrow> jsstring" where
  "priceNumeral text =
     (let normalized = normalizePriceText text in
      if endsWithCommaTwoDigits normalized \<and> 46 \<in> set normalized
      then replaceFirstComma (filter (\<lambda>c. c \<noteq> 46) normalized)
      else if endsWithCommaTwoDigits normalized then replaceFirstComma normalized
      else filter (\<lambda>c. c \<noteq> 44) normalized)"

text \<open>
  \<open>isCurrencySymbol\<close> is the Unicode property \<^verbatim>\<open>\p{Sc}\<close>, which the JavaScript engine
  supplies. The result is the pair of \<^verbatim>\<open>price\<close> and \<^verbatim>\<open>currency\<close>.
\<close>

definition parsePrice :: "(nat \<Rightarrow> bool) \<Rightarrow> jsstring \<Rightarrow> real \<times> jsstring" where
  "parsePrice isCurrencySymbol text =
     (let currency = (case find isCurrencySymbol text of Some c \<Rightarrow> [c] | None \<Rightarrow> str ''$'');
          price = (case parseFloat (priceNumeral text) of None \<Rightarrow> 0 | Some v \<Rightarrow> v)
      in (price, currency))"

text \<open>The currency symbols (general category Sc) of Unicode 15.\<close>

definition unicodeSc :: "nat \<Rightarrow> bool" where
  "unicodeSc c \<longleftrightarrow>
     c = 0x24 \<or> (0xA2 \<le> c \<and> c \<le> 0xA5) \<or> c = 0x58F \<or> c = 0x60B \<or> c = 0x7FE \<or> c = 0x7FF \<or>
     c = 0x9F2 \<or> c = 0x9F3 \<or> c = 0x9FB \<or> c = 0xAF1 \<or> c = 0xBF9 \<or> c = 0xE3F \<or> c = 0x17DB \<or>
     (0x20A0 \<le> c \<and> c \<le> 0x20C0) \<or> c = 0xA838 \<or> c = 0xFDFC \<or> c = 0xFE69 \<or> c = 0xFF04 \<or>
     c = 0xFFE0 \<or> c = 0xFFE1 \<or> c = 0xFFE5 \<or> c = 0xFFE6 \<or>
     (0x11FDD \<le> c \<and> c \<le> 0x11FE0) \<or> c = 0x1E2FF \<or> c = 0x1ECB0"

section \<open>Listing extractor\<close>

text \<open>
  What the HTTP and HTML libraries deliver is the input of the model: the elements of the
  JSON \<^verbatim>\<open>results\<close> array, the text of the selected nodes of a result row or of a listing
  row. \<open>gen k\<close> stands for the generated identifier (clock reading and random number) of
  the candidate built from element \<open>k\<close>.
\<close>

record SearchResult =
  resultName :: "jsstring option"
  sell_price_text :: "jsstring option"
  sale_price_text :: "jsstring option"
  listingid :: "jsstring option"
  assetId :: "jsstring option"

record ResultRow =
  rowItemName :: jsstring
  rowPrice :: jsstring

datatype ResponseData =
  JsonResults "SearchResult list"
| ResultsHtml "ResultRow list"

record ListingRow =
  priceText :: jsstring
  ownerText :: jsstring
  ownerHref :: "jsstring option"
  rowId :: "jsstring option"

record ListingPage =
  pageTitle :: jsstring
  breadcrumb :: jsstring
  listingRows :: "ListingRow list"

text \<open>\<^verbatim>\<open>a || b\<close> on strings that may be absent: the first one that is present and not empty.\<close>

definition orElse :: "jsstring option \<Rightarrow> jsstring \<Rightarrow> jsstring" where
  "orElse a b = (case a of None \<Rightarrow> b | Some x \<Rightarrow> if x = [] then b else x)"

text \<open>\<^verbatim>\<open>Math.max(1, options.count || 10)\<close>\<close>

definition searchCount :: "ScrapingOptions \<Rightarrow> int" where
  "searchCount options = max 1 (if count options = 0 then 10 else count options)"

text \<open>\<^verbatim>\<open>items.slice(0, n)\<close>: a negative \<open>n\<close> counts from the end.\<close>

definition sliceTo :: "int \<Rightarrow> 'a list \<Rightarrow> 'a list" where
  "sliceTo n xs = (if 0 \<le> n then take (nat n) xs else take (length xs - nat (- n)) xs)"

definition filterExterior :: "ScrapingOptions \<Rightarrow> SteamMarketItem list \<Rightarrow> SteamMarketItem list" where
  "filterExterior options items =
     (case exteriorFilter options of
        None \<Rightarrow> items
      | Some wanted \<Rightarrow>
          if wanted = [] then items
          else filter (\<lambda>i. toLowerCase (itemExterior i) = toLowerCase wanted) items)"

text \<open>\<^verbatim>\<open>Array.prototype.sort\<close> is stable; the comparators order by price, ascending for
  \<^verbatim>\<open>lowest\<close> and descending otherwise.\<close>

definition sortByPrice :: "ScrapingOptions \<Rightarrow> SteamMarketItem list \<Rightarrow> SteamMarketItem list" where
  "sortByPrice options items =
     (if priceType options = lowest then sort_key itemPrice items
      else sort_key (\<lambda>i. - itemPrice i) items)"

definition postProcess :: "ScrapingOptions \<Rightarrow> SteamMarketItem list \<Rightarrow> SteamMarketItem list" where
  "postProcess options items =
     sliceTo (count options) (sortByPrice options (filterExterior options items))"

subsection \<open>Search results, current scraper\<close>

definition resultCandidate :: "(nat \<Rightarrow> bool) \<Rightarrow> (nat \<Rightarrow> jsstring) \<Rightarrow> nat \<Rightarrow> SearchResult \<Rightarrow> SteamMarketItem" where
  "resultCandidate sc gen k r =
     (let fullName = orElse (resultName r) [];
          ne = extractNameAndExterior fullName;
          priceStr = orElse (sell_price_text r) (orElse (sale_price_text r) []);
          pc = parsePrice sc priceStr
      in \<lparr>itemName = fst ne, itemExterior = snd ne, itemPrice = fst pc, itemCurrency = snd pc,
          itemListingId = Some (orElse (listingid r) (gen k)),
          itemSellerId = Some (orElse (assetId r) []),
          itemSellerName = Some (str ''Search Result'')\<rparr>)"

text \<open>The loop over \<^verbatim>\<open>response.data.results\<close>; \<open>k\<close> is the position of the next element.\<close>

fun collectResults ::
  "(nat \<Rightarrow> bool) \<Rightarrow> (nat \<Rightarrow> jsstring) \<Rightarrow> int \<Rightarrow> nat \<Rightarrow> SteamMarketItem list \<Rightarrow> SearchResult list
     \<Rightarrow> SteamMarketItem list"
where
  "collectResults sc gen cnt k items [] = items"
| "collectResults sc gen cnt k items (r # rs) =
     (if int (length items) \<ge> cnt then items
      else collectResults sc gen cnt (Suc k) (items @ [resultCandidate sc gen k r]) rs)"

definition rowCandidate :: "(nat \<Rightarrow> bool) \<Rightarrow> (nat \<Rightarrow> jsstring) \<Rightarrow> nat \<Rightarrow> ResultRow \<Rightarrow> SteamMarketItem" where
  "rowCandidate sc gen k row =
     (let fullName = trim (rowItemName row);
          priceStr = trim (rowPrice row);
          ne = extractNameAndExterior fullName;
          pc = parsePrice sc priceStr
      in \<lparr>itemName = fst ne, itemExterior = snd ne, itemPrice = fst pc, itemCurrency = snd pc,
          itemListingId = Some (gen k), itemSellerId = None,
          itemSellerName = Some (str ''Search Result'')\<rparr>)"

fun collectRows ::
  "(nat \<Rightarrow> bool) \<Rightarrow> (nat \<Rightarrow> jsstring) \<Rightarrow> int \<Rightarrow> nat \<Rightarrow> SteamMarketItem list \<Rightarrow> ResultRow list
     \<Rightarrow> SteamMarketItem list"
where
  "collectRows sc gen cnt k items [] = items"
| "collectRows sc gen cnt k items (row # rows) =
     (if int (length items) \<ge> cnt then items
      else collectRows sc gen cnt (Suc k) (items @ [rowCandidate sc gen k row]) rows)"

text \<open>The candidates of \<^verbatim>\<open>scrapeSearchResults\<close> before filtering, sorting and slicing.\<close>

definition searchCandidates ::
  "(nat \<Rightarrow> bool) \<Rightarrow> (nat \<Rightarrow> jsstring) \<Rightarrow> ScrapingOptions \<Rightarrow> ResponseData \<Rightarrow> SteamMarketItem list" where
  "searchCandidates sc gen options response =
     (case response of
        JsonResults results \<Rightarrow> collectResults sc gen (searchCount options) 0 [] results
      | ResultsHtml rows \<Rightarrow> collectRows sc gen (searchCount options) 0 [] rows)"

definition scrapeSearchResults ::
  "(nat \<Rightarrow> bool) \<Rightarrow> (nat \<Rightarrow> jsstring) \<Rightarrow> ScrapingOptions \<Rightarrow> ResponseData \<Rightarrow> SteamMarketItem list" where
  "scrapeSearchResults sc gen options response =
     postProcess options (searchCandidates sc gen options response)"

subsection \<open>Search results, first scraper (steam-scraper.ts)\<close>

definition legacyCandidate :: "(nat \<Rightarrow> bool) \<Rightarrow> jsstring \<Rightarrow> jsstring \<Rightarrow> SteamMarketItem" where
  "legacyCandidate sc fullName priceStr =
     (let ne = extractNameAndExterior fullName;
          pc = parsePrice sc priceStr
      in \<lparr>itemName = fst ne, itemExterior = snd ne, itemPrice = fst pc, itemCurrency = snd pc,
          itemListingId = None, itemSellerId = None, itemSellerName = None\<rparr>)"

text \<open>The loop of \<^verbatim>\<open>scrapeMarketPage\<close> in steam-scraper.ts: the body holds the
  \<^verbatim>\<open>items.push\<close> statement twice.\<close>

fun legacyCollectResults ::
  "(nat \<Rightarrow> bool) \<Rightarrow> int \<Rightarrow> SteamMarketItem list \<Rightarrow> SearchResult list \<Rightarrow> SteamMarketItem list"
where
  "legacyCollectResults sc cnt items [] = items"
| "legacyCollectResults sc cnt items (r # rs) =
     (if int (length items) \<ge> cnt then items
      else (let c = legacyCandidate sc (orElse (resultName r) [])
                      (orElse (sell_price_text r) (orElse (sale_price_text r) []))
            in legacyCollectResults sc cnt (items @ [c, c]) rs))"

fun legacyCollectRows ::
  "(nat \<Rightarrow> bool) \<Rightarrow> int \<Rightarrow> SteamMarketItem list \<Rightarrow> ResultRow list \<Rightarrow> SteamMarketItem list"
where
  "legacyCollectRows sc cnt items [] = items"
| "legacyCollectRows sc cnt items (row # rows) =
     (if int (length items) \<ge> cnt then items
      else legacyCollectRows sc cnt
             (items @ [legacyCandidate sc (trim (rowItemName row)) (trim (rowPrice row))]) rows)"

definition legacySearchCandidates ::
  "(nat \<Rightarrow> bool) \<Rightarrow> ScrapingOptions \<Rightarrow> ResponseData \<Rightarrow> SteamMarketItem list" where
  "legacySearchCandidates sc options response =
     (case response of
        JsonResults results \<Rightarrow> legacyCollectResults sc (searchCount options) [] results
      | ResultsHtml rows \<Rightarrow> legacyCollectRows sc (searchCount options) [] rows)"

definition scrapeMarketPage ::
  "(nat \<Rightarrow> bool) \<Rightarrow> ScrapingOptions \<Rightarrow> ResponseData \<Rightarrow> SteamMarketItem list" where
  "scrapeMarketPage sc options response =
     postProcess options (legacySearchCandidates sc options response)"

subsection \<open>Direct listings\<close>

text \<open>\<^verbatim>\<open>href.split('/profiles/')[1]\<close>: what stands between the first and the second
  separator, absent when there is no separator.\<close>

fun afterSeparator :: "jsstring \<Rightarrow> jsstring \<Rightarrow> jsstring option" where
  "afterSeparator sep [] = (if sep = [] then Some [] else None)"
| "afterSeparator sep (c # cs) =
     (if startsWith (c # cs) sep then Some (drop (length sep) (c # cs))
      else afterSeparator sep cs)"

fun beforeSeparator :: "jsstring \<Rightarrow> jsstring \<Rightarrow> jsstring" where
  "beforeSeparator sep [] = []"
| "beforeSeparator sep (c # cs) =
     (if startsWith (c # cs) sep then [] else c # beforeSeparator sep cs)"

definition profileId :: "jsstring \<Rightarrow> jsstring option" where
  "profileId href =
     map_option (beforeSeparator (str ''/profiles/'')) (afterSeparator (str ''/profiles/'') href)"

definition listingCandidate ::
  "(nat \<Rightarrow> jsstring) \<Rightarrow> jsstring \<times> jsstring \<Rightarrow> nat \<Rightarrow> ListingRow \<Rightarrow> real \<times> jsstring \<Rightarrow> SteamMarketItem" where
  "listingCandidate gen itemInfo k row pc =
     \<lparr>itemName = fst itemInfo, itemExterior = snd itemInfo,
      itemPrice = fst pc, itemCurrency = snd pc,
      itemListingId = Some (orElse (rowId row) (gen k)),
      itemSellerId = Some (orElse (case ownerHref row of None \<Rightarrow> None | Some h \<Rightarrow> profileId h) []),
      itemSellerName = Some (orElse (Some (trim (ownerText row))) (str ''Unknown Seller''))\<rparr>"

text \<open>The loop over the listing rows: a row is pushed only \<^verbatim>\<open>if (price > 0)\<close>.\<close>

fun collectListings ::
  "(nat \<Rightarrow> bool) \<Rightarrow> (nat \<Rightarrow> jsstring) \<Rightarrow> jsstring \<times> jsstring \<Rightarrow> int \<Rightarrow> nat \<Rightarrow> SteamMarketItem list
     \<Rightarrow> ListingRow list \<Rightarrow> SteamMarketItem list"
where
  "collectListings sc gen itemInfo cnt k items [] = items"
| "collectListings sc gen itemInfo cnt k items (row # rows) =
     (if int (length items) \<ge> cnt then items
      else (let pc = parsePrice sc (trim (priceText row)) in
            if fst pc > 0
            then collectListings sc gen itemInfo cnt (Suc k)
                   (items @ [listingCandidate gen itemInfo k row pc]) rows
            else collectListings sc gen itemInfo cnt (Suc k) items rows))"

definition listingCandidates ::
  "(nat \<Rightarrow> bool) \<Rightarrow> (nat \<Rightarrow> jsstring) \<Rightarrow> ScrapingOptions \<Rightarrow> ListingPage \<Rightarrow> SteamMarketItem list" where
  "listingCandidates sc gen options page =
     collectListings sc gen
       (extractNameAndExterior (if pageTitle page \<noteq> [] then pageTitle page else breadcrumb page))
       (count options) 0 [] (listingRows page)"

definition scrapeItemListings ::
  "(nat \<Rightarrow> bool) \<Rightarrow> (nat \<Rightarrow> jsstring) \<Rightarrow> ScrapingOptions \<Rightarrow> ListingPage \<Rightarrow> SteamMarketItem list" where
  "scrapeItemListings sc gen options page =
     postProcess options (listingCandidates sc gen options page)"

section \<open>Cycle scheduler (AutoScheduler)\<close>

text \<open>
  What a cycle cannot compute by itself comes from \<open>World\<close>: the outcome of
  \<^verbatim>\<open>scrapeMarketPage\<close> for the item visited at position \<open>i\<close> (an error when it throws), the
  clock readings, and whether a notifier call returns normally.
\<close>

record World =
  fetch :: "nat \<Rightarrow> jsstring \<Rightarrow> error + SteamMarketItem list"
  stamp :: "nat \<Rightarrow> jsstring"
  saved :: "nat \<Rightarrow> jsstring"
  deliver :: "nat \<Rightarrow> Notification \<Rightarrow> bool"
  finished :: jsstring

record Sys =
  data :: TrackermanData
  settings :: TrackermanSettings
  requested :: "jsstring list"
  notified :: "Notification list"
  successCount :: nat
  errorCount :: nat

definition newSkinData :: "jsstring \<Rightarrow> SteamMarketItem \<Rightarrow> SkinData" where
  "newSkinData t item =
     \<lparr>timestamp = t, price = itemPrice item, currency = itemCurrency item,
      listingId = itemListingId item, sellerId = itemSellerId item,
      sellerName = None, expired = None\<rparr>"

text \<open>One pass of the loop body for the item at position \<open>i\<close> of the live array.\<close>

definition fetchOne :: "World \<Rightarrow> nat \<Rightarrow> Sys \<Rightarrow> Sys" where
  "fetchOne w i st =
     (let skin = skins (data st) ! i;
          st1 = st\<lparr>requested := requested st @ [url skin]\<rparr>
      in case fetch w i (url skin) of
           Inl err \<Rightarrow> st1\<lparr>errorCount := errorCount st1 + 1\<rparr>
         | Inr [] \<Rightarrow> st1
         | Inr (item # others) \<Rightarrow>
             (let skinData = newSkinData (stamp w i) item;
                  d = addSkinData (saved w i) (data st1) (name skin) (exterior skin) skinData (url skin);
                  calls = sendAll (deliver w i)
                            (scheduledNotifications skin (skins d ! i)
                               (skinData\<lparr>expired := Some False\<rparr>) (itemPrice item));
                  st2 = st1\<lparr>data := d, notified := notified st1 @ fst calls\<rparr>
              in if snd calls then st2\<lparr>successCount := successCount st2 + 1\<rparr>
                 else st2\<lparr>errorCount := errorCount st2 + 1\<rparr>))"

section \<open>Example data\<close>

definition exampleObservation :: "real \<Rightarrow> SkinData" where
  "exampleObservation p =
     \<lparr>timestamp = str ''2024-01-01T00:00:00.000Z'', price = p, currency = str ''$'',
      listingId = None, sellerId = None, sellerName = None, expired = None\<rparr>"

definition exampleSkin :: "nat \<Rightarrow> SkinData list \<Rightarrow> Thresholds option \<Rightarrow> Skin" where
  "exampleSkin k h t =
     \<lparr>name = [k], exterior = str ''Unknown'', url = [k], skindata = h, thresholds = t\<rparr>"

definition exampleListing :: "real \<Rightarrow> SteamMarketItem" where
  "exampleListing p =
     \<lparr>itemName = str ''AK'', itemExterior = str ''Unknown'', itemPrice = p,
      itemCurrency = str ''$'', itemListingId = None, itemSellerId = None,
      itemSellerName = None\<rparr>"

definition exampleSettings :: TrackermanSettings where
  "exampleSettings =
     \<lparr>autoScheduler = \<lparr>enabled = True, intervalMinutes = 30, lastRun = None\<rparr>,
      discord = \<lparr>discordEnabled = False, webhookUrl = None, priceUpdate = True,
                 thresholdHigh = True, thresholdLow = True\<rparr>,
      scraping = \<lparr>timeoutMs = 10000, delayBetweenRequests = 1000, maxRetries = 3\<rparr>,
      logging = None\<rparr>"

definition exampleSys :: "Skin list \<Rightarrow> Sys" where
  "exampleSys xs =
     \<lparr>data = \<lparr>skins = xs, lastUpdated = []\<rparr>, settings = exampleSettings,
      requested = [], notified = [], successCount = 0, errorCount = 0\<rparr>"

text \<open>A world in which the fetch at position 1 fails and every other fetch finds one
  listing at price 10.\<close>

definition exampleWorld :: World where
  "exampleWorld =
     \<lparr>fetch = (\<lambda>i u. if i = 1 then Inl (Error (str ''Scraping failed: timeout''))
                      else Inr [exampleListing 10]),
      stamp = (\<lambda>i. str ''2024-01-02T00:00:00.000Z''),
      saved = (\<lambda>i. str ''2024-01-02T00:00:01.000Z''),
      deliver = (\<lambda>i x. True),
      finished = str ''2024-01-02T00:00:02.000Z''\<rparr>"

definition exampleAppends :: "(SkinData \<times> jsstring \<times> jsstring) list" where
  "exampleAppends =
     [(exampleObservation 1, [7], []), (exampleObservation 2, [7], []),
      (exampleObservation 3, [7], [])]"

definition threeSkins :: "Skin list" where
  "threeSkins = [exampleSkin 1 [] None, exampleSkin 2 [] None, exampleSkin 3 [] None]"

definition trackedOnce :: Skin where
  "trackedOnce = exampleSkin 1 [exampleObservation 10\<lparr>expired := Some False\<rparr>]
                   (Some \<lparr>high = Some 5, low = Some 200\<rparr>)"

definition exampleOptions :: ScrapingOptions where
  "exampleOptions = \<lparr>priceType = lowest, count = 10, exteriorFilter = None\<rparr>"

definition exampleGen :: "nat \<Rightarrow> jsstring" where
  "exampleGen k = str ''listing_1700000000000_0.5''"

definition exampleRow :: "string \<Rightarrow> ListingRow" where
  "exampleRow p = \<lparr>priceText = str p, ownerText = [], ownerHref = None, rowId = None\<rparr>"

definition examplePage :: "ListingRow list \<Rightarrow> ListingPage" where
  "examplePage rows = \<lparr>pageTitle = str ''AK'', breadcrumb = [], listingRows = rows\<rparr>"

definition exampleResult :: "string \<Rightarrow> SearchResult" where
  "exampleResult p =
     \<lparr>resultName = Some (str ''AK''), sell_price_text = Some (str p), sale_price_text = None,
      listingid = None, assetId = None\<rparr>"

section \<open>Specification-side notions\<close>

text \<open>A fresh tracked item: not in the store yet, or registered with an empty history.\<close>

definition fresh :: "TrackermanData \<Rightarrow> jsstring \<Rightarrow> jsstring \<Rightarrow> bool" where
  "fresh d n e = (case getSkin d n e of None \<Rightarrow> True | Some s \<Rightarrow> skindata s = [])"

text \<open>The identity of a tracked item: the pair of base name and wear tier.\<close>

definition skinKey :: "Skin \<Rightarrow> jsstring \<times> jsstring" where
  "skinKey s = (name s, exterior s)"

text \<open>What one visit of the cycle does to the item at position \<open>i\<close>.\<close>

definition outcome :: "World \<Rightarrow> nat \<Rightarrow> Skin \<Rightarrow> Skin" where
  "outcome w i s =
     (case fetch w i (url s) of
        Inl err \<Rightarrow> s
      | Inr [] \<Rightarrow> s
      | Inr (item # others) \<Rightarrow> pushData (newSkinData (stamp w i) item) (url s) s)"

definition history :: "SkinData list \<Rightarrow> SkinData list" where
  "history sds = map expire (butlast sds) @ [(last sds)\<lparr>expired := Some False\<rparr>]"

text \<open>Whether the tier filter of the options lets a candidate through.\<close>

definition keepsExterior :: "ScrapingOptions \<Rightarrow> SteamMarketItem \<Rightarrow> bool" where
  "keepsExterior options c =
     (case exteriorFilter options of
        None \<Rightarrow> True
      | Some wanted \<Rightarrow> wanted = [] \<or> toLowerCase (itemExterior c) = toLowerCase wanted)"

text \<open>An occurrence of a keyword between \<open>pre\<close> and \<open>post\<close> stands at word boundaries when
  no word character touches it on either side.\<close>

definition atBoundary :: "jsstring \<Rightarrow> jsstring \<Rightarrow> bool" where
  "atBoundary pre post \<longleftrightarrow>
     (pre = [] \<or> \<not> isWordChar (last pre)) \<and> (post = [] \<or> \<not> isWordChar (hd post))"

text \<open>White space in normal form: only single spaces, none at either end.\<close>

fun noAdjacentSpaces :: "jsstring \<Rightarrow> bool" where
  "noAdjacentSpaces (a # b # cs) = (\<not> (isSpace a \<and> isSpace b) \<and> noAdjacentSpaces (b # cs))"
| "noAdjacentSpaces cs = True"

definition singleSpaced :: "jsstring \<Rightarrow> bool" where
  "singleSpaced s \<longleftrightarrow>
     list_all (\<lambda>c. isSpace c \<longrightarrow> c = 32) s \<and> noAdjacentSpaces s \<and>
     (s = [] \<or> (\<not> isSpace (hd s) \<and> \<not> isSpace (last s)))"

text \<open>
  Modelled from the spec: the canonical dot-decimal rendering of an amount, which the
  repository does not implement (the code only ever parses price text). A canonical
  rendering is a non-empty run of digits without a superfluous leading zero, optionally
  followed by a dot and a non-empty run of digits without a trailing zero.
\<close>

definition isDotDecimal :: "jsstring \<Rightarrow> bool" where
  "isDotDecimal r \<longleftrightarrow>
     (let ip = takeWhile (\<lambda>c. c \<noteq> 46) r; fp = drop (Suc (length ip)) r in
      ip \<noteq> [] \<and> list_all isDigit ip \<and> list_all isDigit fp \<and>
      (r = ip \<or> (fp \<noteq> [] \<and> r = ip @ 46 # fp)) \<and>
      (length ip > 1 \<longrightarrow> hd ip \<noteq> 48) \<and> (fp \<noteq> [] \<longrightarrow> last fp \<noteq> 48))"

text \<open>
  Modelled from the spec: the amount that a dot-decimal rendering denotes (the repository
  has no rendering function to read it from): the digits before the dot as a decimal
  number plus the digits after it as a decimal fraction.
\<close>

definition decimalValue :: "jsstring \<Rightarrow> real" where
  "decimalValue r =
     (let ip = takeWhile (\<lambda>c. c \<noteq> 46) r; fp = drop (Suc (length ip)) r in
      real (foldl (\<lambda>a c. 10 * a + (c - 48)) 0 ip) +
      real (foldl (\<lambda>a c. 10 * a + (c - 48)) 0 fp) / 10 ^ length fp)"

text \<open>
  Modelled from the spec: \<open>r\<close> is the canonical dot-decimal rendering of the amount \<open>a\<close>
  (the rendering is not implemented in the repository).
\<close>

definition rendersAmount :: "jsstring \<Rightarrow> real \<Rightarrow> bool" where
  "rendersAmount r a \<longleftrightarrow> isDotDecimal r \<and> decimalValue r = a"

section \<open>The cycle loop\<close>

text \<open>
  The loop of \<^verbatim>\<open>executeScheduledFetch\<close> runs over the live item array. It ends because a
  pass never changes the length of the array: the item it appends to is in the store.
\<close>

lemma find_mem_Some: "x \<in> set xs \<Longrightarrow> P x \<Longrightarrow> \<exists>y. find P xs = Some y"
  by (induction xs) auto

lemma length_updateFirst [simp]: "length (updateFirst P f xs) = length xs"
  by (induction xs) auto

lemma length_addSkinData_present:
  assumes "i < length (skins d)"
  shows "length (skins (addSkinData now d (name (skins d ! i)) (exterior (skins d ! i)) sd u)) =
           length (skins d)"
proof -
  have a: "skins d ! i \<in> set (skins d)" using assms by simp
  have b: "sameSkin (name (skins d ! i)) (exterior (skins d ! i)) (skins d ! i)"
    by (simp add: sameSkin_def)
  from find_mem_Some [of "skins d ! i" "skins d"
      "sameSkin (name (skins d ! i)) (exterior (skins d ! i))", OF a b] obtain y where
    "getSkin d (name (skins d ! i)) (exterior (skins d ! i)) = Some y"
    unfolding getSkin_def by (rule exE)
  then show ?thesis by (simp add: addSkinData_def)
qed

lemma length_fetchOne:
  assumes "i < length (skins (data st))"
  shows "length (skins (data (fetchOne w i st))) = length (skins (data st))"
proof (cases "fetch w i (url (skins (data st) ! i))")
  case (Inl err)
  then show ?thesis by (simp add: fetchOne_def Let_def)
next
  case (Inr items)
  show ?thesis
  proof (cases items)
    case Nil
    then show ?thesis using Inr by (simp add: fetchOne_def Let_def)
  next
    case (Cons item others)
    then show ?thesis using Inr assms
      by (simp add: fetchOne_def Let_def length_addSkinData_present)
  qed
qed

text \<open>
  \<^verbatim>\<open>for (const skin of skins)\<close> walks the live array by position until the position
  reaches its length.
\<close>

function cycleFrom :: "World \<Rightarrow> nat \<Rightarrow> Sys \<Rightarrow> Sys" where
  "cycleFrom w i st =
     (if i < length (skins (data st)) then cycleFrom w (Suc i) (fetchOne w i st) else st)"
  by pat_completeness auto
termination
  by (relation "measure (\<lambda>(w, i, st). length (skins (data st)) - i)")
     (auto simp: length_fetchOne)

declare cycleFrom.simps [simp del]

text \<open>
  \<^verbatim>\<open>dataManager.updateSettings({autoScheduler: {...this.settings, lastRun}})\<close> replaces
  the \<^verbatim>\<open>autoScheduler\<close> entry of the stored settings by the scheduler's own copy,
  \<open>schedulerSettings\<close>, with the new \<^verbatim>\<open>lastRun\<close>.
\<close>

definition executeScheduledFetch :: "World \<Rightarrow> AutoSchedulerSettings \<Rightarrow> Sys \<Rightarrow> Sys" where
  "executeScheduledFetch w schedulerSettings st =
     (if length (getSkins (data st)) = 0 then st
      else (let st' = cycleFrom w 0 (st\<lparr>successCount := 0, errorCount := 0\<rparr>) in
            st'\<lparr>settings := (settings st')
                   \<lparr>autoScheduler := schedulerSettings\<lparr>lastRun := Some (finished w)\<rparr>\<rparr>\<rparr>))"

definition manualTrigger :: "World \<Rightarrow> AutoSchedulerSettings \<Rightarrow> Sys \<Rightarrow> Sys" where
  "manualTrigger w schedulerSettings st = executeScheduledFetch w schedulerSettings st"

section \<open>Snapshot store: the current-snapshot invariant\<close>

lemma find_updateFirst:
  "find P xs = Some x \<Longrightarrow> P (f x) \<Longrightarrow> find P (updateFirst P f xs) = Some (f x)"
  by (induction xs) (auto split: if_splits)

lemma sameSkin_pushData [simp]: "sameSkin n e (pushData sd u s) = sameSkin n e s"
  by (simp add: sameSkin_def pushData_def)

lemma find_Some_P: "find P xs = Some x \<Longrightarrow> P x"
  by (induction xs) (auto split: if_splits)

lemma getSkin_addSkinData_Some:
  assumes "getSkin d n e = Some s"
  shows "getSkin (addSkinData now d n e sd u) n e = Some (pushData sd u s)"
proof -
  have "sameSkin n e s" using assms by (auto simp: getSkin_def dest: find_Some_P)
  then show ?thesis using assms
    by (simp add: getSkin_def addSkinData_def find_updateFirst)
qed

lemma find_append_None:
  "find P xs = None \<Longrightarrow> find P (xs @ [y]) = (if P y then Some y else None)"
  by (induction xs) (auto split: if_splits)

lemma getSkin_addSkinData_None:
  assumes "getSkin d n e = None"
  shows "getSkin (addSkinData now d n e sd u) n e =
           Some \<lparr>name = n, exterior = e, url = u,
                 skindata = [sd\<lparr>expired := Some False\<rparr>], thresholds = None\<rparr>"
  using assms by (simp add: getSkin_def addSkinData_def find_append_None sameSkin_def)

lemma expire_expire [simp]: "expire (expire x) = expire x"
  by (simp add: expire_def)

lemma expire_unexpired [simp]: "expire (x\<lparr>expired := b\<rparr>) = expire x"
  by (simp add: expire_def)

lemma appendAll_existing:
  "getSkin d n e = Some s \<Longrightarrow> obs \<noteq> [] \<Longrightarrow>
     \<exists>s'. getSkin (appendAll d n e obs) n e = Some s' \<and>
          skindata s' = map expire (skindata s) @ history (map fst obs)"
proof (induction obs arbitrary: d s)
  case Nil
  then show ?case by simp
next
  case (Cons o1 rest)
  obtain sd u now where o1: "o1 = (sd, u, now)" by (cases o1) auto
  let ?d = "addSkinData now d n e sd u"
  have step: "getSkin ?d n e = Some (pushData sd u s)"
    using Cons.prems(1) by (rule getSkin_addSkinData_Some)
  show ?case
  proof (cases "rest = []")
    case True
    then show ?thesis using step o1 by (simp add: history_def pushData_def)
  next
    case False
    from Cons.IH [OF step False] obtain s' where
      s': "getSkin (appendAll ?d n e rest) n e = Some s'"
          "skindata s' = map expire (skindata (pushData sd u s)) @ history (map fst rest)"
      by blast
    then show ?thesis using o1 False
      by (simp add: history_def pushData_def)
  qed
qed

lemma appendAll_fresh:
  assumes "fresh d n e" and "obs \<noteq> []"
  shows "\<exists>s. getSkin (appendAll d n e obs) n e = Some s \<and> skindata s = history (map fst obs)"
proof (cases "getSkin d n e")
  case (Some s)
  then have "skindata s = []" using assms(1) by (simp add: fresh_def)
  then show ?thesis using appendAll_existing [OF Some assms(2)] by simp
next
  case None
  obtain sd u now rest where obs: "obs = (sd, u, now) # rest"
    using assms(2) by (cases obs) auto
  let ?d = "addSkinData now d n e sd u"
  let ?s = "\<lparr>name = n, exterior = e, url = u,
            skindata = [sd\<lparr>expired := Some False\<rparr>], thresholds = None\<rparr>"
  have step: "getSkin ?d n e = Some ?s" using None by (rule getSkin_addSkinData_None)
  show ?thesis
  proof (cases "rest = []")
    case True
    then show ?thesis using step obs by (simp add: history_def)
  next
    case False
    from appendAll_existing [OF step False] show ?thesis using obs False
      by (auto simp add: history_def)
  qed
qed

lemma isExpired_expire [simp]: "isExpired (expire x)"
  by (simp add: isExpired_def expire_def)

lemma isExpired_current [simp]: "\<not> isExpired (x\<lparr>expired := Some False\<rparr>)"
  by (simp add: isExpired_def)

text \<open>
  C1. Appending N \<ge> 1 observations to a fresh item leaves the item with the N observations
  in insertion order, the first N - 1 flagged expired and the last one not; the current
  view (\<open>getActiveSkin\<close>) then holds exactly the last observation and the full view
  (\<open>getSkins\<close>) all N.
\<close>

theorem append_current_snapshot:
  assumes "fresh d n e" and "obs \<noteq> []"
  shows "\<exists>s. getSkin (appendAll d n e obs) n e = Some s \<and>
           s \<in> set (getSkins (appendAll d n e obs)) \<and>
           skindata s = map expire (butlast (map fst obs)) @
                          [(last (map fst obs))\<lparr>expired := Some False\<rparr>] \<and>
           filter (\<lambda>x. \<not> isExpired x) (skindata s) = [(last (map fst obs))\<lparr>expired := Some False\<rparr>] \<and>
           length (filter isExpired (skindata s)) = length obs - 1 \<and>
           length (skindata s) = length obs \<and>
           (\<exists>a. getActiveSkin (appendAll d n e obs) n e = Some a \<and> length (skindata a) = 1 \<and>
                 skindata a = [(last (map fst obs))\<lparr>expired := Some False\<rparr>])"
proof -
  from appendAll_fresh [OF assms] obtain s where
    s: "getSkin (appendAll d n e obs) n e = Some s" "skindata s = history (map fst obs)"
    by blast
  have mem: "s \<in> set (getSkins (appendAll d n e obs))"
    using s(1) by (auto simp: getSkin_def getSkins_def find_Some_iff)
  have len: "length (history (map fst obs)) = length obs"
    using assms(2) by (simp add: history_def)
  show ?thesis using s mem len assms(2)
    by (auto simp add: getActiveSkin_def activeOnly_def history_def)
qed

theorem append_current_snapshot_witness:
  "fresh \<lparr>skins = [], lastUpdated = []\<rparr> [1] [2] \<and> exampleAppends \<noteq> [] \<and>
   (\<exists>s. getSkin (appendAll \<lparr>skins = [], lastUpdated = []\<rparr> [1] [2] exampleAppends) [1] [2] = Some s \<and>
        map price (skindata s) = [1, 2, 3] \<and>
        map isExpired (skindata s) = [True, True, False])"
proof -
  have f: "fresh \<lparr>skins = [], lastUpdated = []\<rparr> [1] [2]"
    by (simp add: fresh_def getSkin_def)
  have n: "exampleAppends \<noteq> []" by (simp add: exampleAppends_def)
  from append_current_snapshot [OF f n] obtain s where
    s: "getSkin (appendAll \<lparr>skins = [], lastUpdated = []\<rparr> [1] [2] exampleAppends) [1] [2] = Some s"
       "skindata s = map expire (butlast (map fst exampleAppends)) @
                          [(last (map fst exampleAppends))\<lparr>expired := Some False\<rparr>]"
    by blast
  have "map price (skindata s) = [1, 2, 3]"
    unfolding s(2) by (simp add: exampleAppends_def exampleObservation_def expire_def)
  moreover have "map isExpired (skindata s) = [True, True, False]"
    unfolding s(2) by (simp add: exampleAppends_def)
  ultimately show ?thesis using f n s(1) by simp
qed

section \<open>Removing and adding tracked items\<close>

lemma find_None_filter: "find P xs = None \<Longrightarrow> filter (\<lambda>x. \<not> P x) xs = xs"
  by (induction xs) (auto split: if_splits)

text \<open>
  C8. Removing a (name, tier) pair that is not tracked changes nothing in the store but
  the save time and raises no error; adding an item whose pair is already tracked fails
  with the error "Skin ... already exists", and the store is not changed.
\<close>

theorem remove_absent_add_duplicate:
  "(getSkin d n e = None \<longrightarrow> removeSkin now d n e = d\<lparr>lastUpdated := now\<rparr>) \<and>
   (getSkin d (name skin) (exterior skin) \<noteq> None \<longrightarrow>
      addSkin now d skin = Inl (Error (alreadyExists skin)))"
proof -
  have a: "getSkin d n e = None \<longrightarrow> removeSkin now d n e = d\<lparr>lastUpdated := now\<rparr>"
  proof
    assume "getSkin d n e = None"
    then have "filter (\<lambda>x. \<not> sameSkin n e x) (skins d) = skins d"
      unfolding getSkin_def by (rule find_None_filter)
    then show "removeSkin now d n e = d\<lparr>lastUpdated := now\<rparr>"
      by (simp add: removeSkin_def sameSkin_def)
  qed
  have b: "getSkin d (name skin) (exterior skin) \<noteq> None \<longrightarrow>
      addSkin now d skin = Inl (Error (alreadyExists skin))"
    by (auto simp: addSkin_def)
  show ?thesis using a b by blast
qed

theorem remove_absent_add_duplicate_witness:
  "getSkin \<lparr>skins = [exampleSkin 1 [exampleObservation 10] None], lastUpdated = []\<rparr>
      [2] (str ''Unknown'') = None \<and>
   removeSkin [9] \<lparr>skins = [exampleSkin 1 [exampleObservation 10] None], lastUpdated = []\<rparr>
      [2] (str ''Unknown'') =
     \<lparr>skins = [exampleSkin 1 [exampleObservation 10] None], lastUpdated = [9]\<rparr> \<and>
   getSkin \<lparr>skins = [exampleSkin 1 [exampleObservation 10] None], lastUpdated = []\<rparr>
      (name (exampleSkin 1 [] None)) (exterior (exampleSkin 1 [] None)) \<noteq> None \<and>
   addSkin [9] \<lparr>skins = [exampleSkin 1 [exampleObservation 10] None], lastUpdated = []\<rparr>
      (exampleSkin 1 [] None) = Inl (Error (alreadyExists (exampleSkin 1 [] None)))"
proof -
  let ?d = "\<lparr>skins = [exampleSkin 1 [exampleObservation 10] None], lastUpdated = []\<rparr>"
  have a: "getSkin ?d [2] (str ''Unknown'') = None"
    by (simp add: getSkin_def sameSkin_def exampleSkin_def)
  have b: "getSkin ?d (name (exampleSkin 1 [] None)) (exterior (exampleSkin 1 [] None)) \<noteq> None"
    by (simp add: getSkin_def sameSkin_def exampleSkin_def)
  from remove_absent_add_duplicate [of ?d "[2]" "str ''Unknown''" "[9]" "exampleSkin 1 [] None"] a b
  show ?thesis by simp
qed

section \<open>The cycle: failure isolation and the empty cycle\<close>

text \<open>
  The store keeps the (name, tier) pairs of its items pairwise different: every operation
  that changes the item list preserves this.
\<close>

lemma map_skinKey_updateFirst:
  "(\<And>s. skinKey (f s) = skinKey s) \<Longrightarrow> map skinKey (updateFirst P f xs) = map skinKey xs"
  by (induction xs) auto

lemma find_None_key:
  assumes "find (sameSkin n e) xs = None"
  shows "(n, e) \<notin> set (map skinKey xs)"
proof
  assume "(n, e) \<in> set (map skinKey xs)"
  then obtain s where s: "s \<in> set xs" "skinKey s = (n, e)" by auto
  then have "sameSkin n e s" by (simp add: sameSkin_def skinKey_def)
  then show False using assms s(1) by (simp add: find_None_iff)
qed

lemma distinct_addSkinData:
  assumes "distinct (map skinKey (skins d))"
  shows "distinct (map skinKey (skins (addSkinData now d n e sd u)))"
proof (cases "getSkin d n e")
  case None
  then have "(n, e) \<notin> set (map skinKey (skins d))"
    unfolding getSkin_def by (rule find_None_key)
  then show ?thesis using None assms by (simp add: addSkinData_def skinKey_def)
next
  case (Some s)
  have "map skinKey (updateFirst (sameSkin n e) (pushData sd u) (skins d)) = map skinKey (skins d)"
    by (rule map_skinKey_updateFirst) (simp add: skinKey_def pushData_def)
  then show ?thesis using Some assms by (simp add: addSkinData_def)
qed

lemma distinct_addSkin:
  assumes "distinct (map skinKey (skins d))" and "addSkin now d skin = Inr d'"
  shows "distinct (map skinKey (skins d'))"
proof (cases "getSkin d (name skin) (exterior skin)")
  case None
  then have k: "(name skin, exterior skin) \<notin> set (map skinKey (skins d))"
    unfolding getSkin_def by (rule find_None_key)
  have "d' = d\<lparr>skins := skins d @ [skin], lastUpdated := now\<rparr>"
    using assms(2) None by (simp add: addSkin_def)
  then show ?thesis using assms(1) k by (simp add: skinKey_def)
next
  case (Some s)
  then show ?thesis using assms(2) by (simp add: addSkin_def)
qed

lemma distinct_removeSkin:
  assumes "distinct (map skinKey (skins d))"
  shows "distinct (map skinKey (skins (removeSkin now d n e)))"
  using assms by (simp add: removeSkin_def distinct_map_filter)

lemma updateFirst_distinct:
  "distinct (map skinKey xs) \<Longrightarrow> i < length xs \<Longrightarrow>
     updateFirst (sameSkin (name (xs ! i)) (exterior (xs ! i))) f xs = xs[i := f (xs ! i)]"
proof (induction xs arbitrary: i)
  case Nil
  then show ?case by simp
next
  case (Cons x xs)
  show ?case
  proof (cases i)
    case 0
    then show ?thesis by (simp add: sameSkin_def)
  next
    case (Suc k)
    then have k: "k < length xs" using Cons.prems by simp
    then have "skinKey (xs ! k) \<in> set (map skinKey xs)" by simp
    then have "skinKey x \<noteq> skinKey (xs ! k)" using Cons.prems(1) by auto
    then have "\<not> sameSkin (name (xs ! k)) (exterior (xs ! k)) x"
      by (auto simp: sameSkin_def skinKey_def)
    then show ?thesis using Suc Cons.IH [of k] Cons.prems(1) k by simp
  qed
qed

lemma skinKey_pushData [simp]: "skinKey (pushData sd u s) = skinKey s"
  by (simp add: skinKey_def pushData_def)

lemma skinKey_outcome [simp]: "skinKey (outcome w i s) = skinKey s"
  by (simp add: outcome_def split: sum.split list.split)

lemma skins_addSkinData_distinct:
  assumes "distinct (map skinKey (skins d))" and "i < length (skins d)"
  shows "skins (addSkinData now d (name (skins d ! i)) (exterior (skins d ! i)) sd u) =
           (skins d)[i := pushData sd u (skins d ! i)]"
proof -
  have a: "skins d ! i \<in> set (skins d)" using assms by simp
  have b: "sameSkin (name (skins d ! i)) (exterior (skins d ! i)) (skins d ! i)"
    by (simp add: sameSkin_def)
  from find_mem_Some [of "skins d ! i" "skins d"
      "sameSkin (name (skins d ! i)) (exterior (skins d ! i))", OF a b] obtain y where
    "getSkin d (name (skins d ! i)) (exterior (skins d ! i)) = Some y"
    unfolding getSkin_def by (rule exE)
  then show ?thesis using assms by (simp add: addSkinData_def updateFirst_distinct)
qed

lemma skins_fetchOne:
  assumes "distinct (map skinKey (skins (data st)))" and "i < length (skins (data st))"
  shows "skins (data (fetchOne w i st)) = (skins (data st))[i := outcome w i (skins (data st) ! i)]"
proof (cases "fetch w i (url (skins (data st) ! i))")
  case (Inl err)
  then show ?thesis by (simp add: fetchOne_def Let_def outcome_def)
next
  case (Inr items)
  show ?thesis
  proof (cases items)
    case Nil
    then show ?thesis using Inr by (simp add: fetchOne_def Let_def outcome_def)
  next
    case (Cons item others)
    then show ?thesis using Inr assms
      by (simp add: fetchOne_def Let_def outcome_def skins_addSkinData_distinct)
  qed
qed

lemma settings_fetchOne [simp]: "settings (fetchOne w i st) = settings st"
proof (cases "fetch w i (url (skins (data st) ! i))")
  case (Inl err)
  then show ?thesis by (simp add: fetchOne_def Let_def)
next
  case (Inr items)
  then show ?thesis by (cases items) (simp_all add: fetchOne_def Let_def)
qed

lemma settings_cycleFrom [simp]: "settings (cycleFrom w i st) = settings st"
proof (induction w i st rule: cycleFrom.induct)
  case (1 w i st)
  show ?case
  proof (cases "i < length (skins (data st))")
    case True
    then show ?thesis using "1.IH" by (subst cycleFrom.simps) simp
  next
    case False
    then show ?thesis by (subst cycleFrom.simps) simp
  qed
qed

lemma distinct_map_update:
  "distinct (map f xs) \<Longrightarrow> f y = f (xs ! i) \<Longrightarrow> i < length xs \<Longrightarrow> distinct (map f (xs[i := y]))"
  by (metis list_update_id map_update)

lemma skins_cycleFrom:
  "distinct (map skinKey (skins (data st))) \<Longrightarrow> i \<le> length (skins (data st)) \<Longrightarrow>
     skins (data (cycleFrom w i st)) =
       take i (skins (data st)) @
       map (\<lambda>k. outcome w k (skins (data st) ! k)) [i..<length (skins (data st))]"
proof (induction w i st rule: cycleFrom.induct)
  case (1 w i st)
  let ?xs = "skins (data st)"
  show ?case
  proof (cases "i < length ?xs")
    case False
    then have "i = length ?xs" using "1.prems" by simp
    then show ?thesis by (subst cycleFrom.simps) simp
  next
    case True
    let ?o = "outcome w i (?xs ! i)"
    have xs1: "skins (data (fetchOne w i st)) = ?xs[i := ?o]"
      using "1.prems"(1) True by (rule skins_fetchOne)
    have d1: "distinct (map skinKey (skins (data (fetchOne w i st))))"
      unfolding xs1 using "1.prems"(1) True by (intro distinct_map_update) simp_all
    have l1: "Suc i \<le> length (skins (data (fetchOne w i st)))"
      unfolding xs1 using True by simp
    have IH: "skins (data (cycleFrom w (Suc i) (fetchOne w i st))) =
        take (Suc i) (?xs[i := ?o]) @
        map (\<lambda>k. outcome w k (?xs[i := ?o] ! k)) [Suc i..<length ?xs]"
      using "1.IH" [OF True d1 l1] unfolding xs1 by simp
    have t: "take (Suc i) (?xs[i := ?o]) = take i ?xs @ [?o]"
      using True by (simp add: take_Suc_conv_app_nth)
    have m: "map (\<lambda>k. outcome w k (?xs[i := ?o] ! k)) [Suc i..<length ?xs] =
             map (\<lambda>k. outcome w k (?xs ! k)) [Suc i..<length ?xs]"
      by (rule map_cong) auto
    have u: "[i..<length ?xs] = i # [Suc i..<length ?xs]"
      using True by (simp add: upt_conv_Cons)
    have "cycleFrom w i st = cycleFrom w (Suc i) (fetchOne w i st)"
      using True by (subst cycleFrom.simps) simp
    then show ?thesis using IH t m u by simp
  qed
qed

text \<open>
  C3. In a cycle over a store whose items have pairwise different (name, tier) pairs, if
  the fetch for the item at position \<open>j\<close> fails, the cycle still runs to its end: that item
  is left as it was, every item whose fetch returns at least one listing gets the first
  listing appended as its new current observation, and \<^verbatim>\<open>lastRun\<close> is written to the
  settings with the completion time.
\<close>

theorem cycle_failure_isolation:
  assumes "distinct (map skinKey (skins (data st)))"
    and "j < length (skins (data st))"
    and "fetch w j (url (skins (data st) ! j)) = Inl err"
  shows "lastRun (autoScheduler (settings (executeScheduledFetch w cfg st))) = Some (finished w) \<and>
         length (skins (data (executeScheduledFetch w cfg st))) = length (skins (data st)) \<and>
         skins (data (executeScheduledFetch w cfg st)) ! j = skins (data st) ! j \<and>
         (\<forall>i item others. i < length (skins (data st)) \<and>
              fetch w i (url (skins (data st) ! i)) = Inr (item # others) \<longrightarrow>
              skins (data (executeScheduledFetch w cfg st)) ! i =
                pushData (newSkinData (stamp w i) item) (url (skins (data st) ! i))
                  (skins (data st) ! i))"
proof -
  let ?xs = "skins (data st)"
  let ?st0 = "st\<lparr>successCount := 0, errorCount := 0\<rparr>"
  have ne: "length (getSkins (data st)) \<noteq> 0" using assms(2) by (auto simp: getSkins_def)
  have sk: "skins (data (executeScheduledFetch w cfg st)) =
              map (\<lambda>k. outcome w k (?xs ! k)) [0..<length ?xs]"
    using ne skins_cycleFrom [of ?st0 0 w] assms(1)
    by (simp add: executeScheduledFetch_def Let_def)
  have nth: "\<And>i. i < length ?xs \<Longrightarrow>
      skins (data (executeScheduledFetch w cfg st)) ! i = outcome w i (?xs ! i)"
    unfolding sk by simp
  have a: "lastRun (autoScheduler (settings (executeScheduledFetch w cfg st))) = Some (finished w)"
    using ne by (simp add: executeScheduledFetch_def Let_def)
  have b: "length (skins (data (executeScheduledFetch w cfg st))) = length ?xs"
    unfolding sk by simp
  have c: "skins (data (executeScheduledFetch w cfg st)) ! j = ?xs ! j"
    using nth [OF assms(2)] assms(3) by (simp add: outcome_def)
  have d: "\<forall>i item others. i < length ?xs \<and> fetch w i (url (?xs ! i)) = Inr (item # others) \<longrightarrow>
              skins (data (executeScheduledFetch w cfg st)) ! i =
                pushData (newSkinData (stamp w i) item) (url (?xs ! i)) (?xs ! i)"
    using nth by (auto simp: outcome_def)
  show ?thesis using a b c d by blast
qed

lemma fetch_exampleWorld_1: "fetch exampleWorld 1 u = Inl (Error (str ''Scraping failed: timeout''))"
  by (simp add: exampleWorld_def)

lemma fetch_exampleWorld_0: "fetch exampleWorld 0 u = Inr [exampleListing 10]"
  by (simp add: exampleWorld_def)

lemma fetch_exampleWorld_2: "fetch exampleWorld 2 u = Inr [exampleListing 10]"
  by (simp add: exampleWorld_def)

theorem cycle_failure_isolation_witness:
  "distinct (map skinKey (skins (data (exampleSys threeSkins)))) \<and>
   1 < length (skins (data (exampleSys threeSkins))) \<and>
   fetch exampleWorld 1 (url (skins (data (exampleSys threeSkins)) ! 1)) =
     Inl (Error (str ''Scraping failed: timeout'')) \<and>
   lastRun (autoScheduler (settings
      (executeScheduledFetch exampleWorld (autoScheduler exampleSettings) (exampleSys threeSkins)))) =
     Some (finished exampleWorld) \<and>
   skins (data (executeScheduledFetch exampleWorld (autoScheduler exampleSettings)
                  (exampleSys threeSkins))) ! 1 = exampleSkin 2 [] None \<and>
   map price (skindata (skins (data (executeScheduledFetch exampleWorld
      (autoScheduler exampleSettings) (exampleSys threeSkins))) ! 0)) = [10] \<and>
   map price (skindata (skins (data (executeScheduledFetch exampleWorld
      (autoScheduler exampleSettings) (exampleSys threeSkins))) ! 2)) = [10]"
proof -
  let ?st = "exampleSys threeSkins"
  let ?r = "executeScheduledFetch exampleWorld (autoScheduler exampleSettings) ?st"
  have sk: "skins (data ?st) = threeSkins" by (simp add: exampleSys_def)
  have d: "distinct (map skinKey (skins (data ?st)))"
    unfolding sk by (simp add: threeSkins_def exampleSkin_def skinKey_def)
  have l: "1 < length (skins (data ?st))" unfolding sk by (simp add: threeSkins_def)
  have f: "fetch exampleWorld 1 (url (skins (data ?st) ! 1)) =
             Inl (Error (str ''Scraping failed: timeout''))"
    by (rule fetch_exampleWorld_1)
  note c = cycle_failure_isolation [OF d l f, of "autoScheduler exampleSettings"]
  have c1: "lastRun (autoScheduler (settings ?r)) = Some (finished exampleWorld)"
    using c by simp
  have c2: "skins (data ?r) ! 1 = exampleSkin 2 [] None"
    using c unfolding sk by (simp add: threeSkins_def)
  have c3: "\<And>i item others. i < length (skins (data ?st)) \<Longrightarrow>
              fetch exampleWorld i (url (skins (data ?st) ! i)) = Inr (item # others) \<Longrightarrow>
              skins (data ?r) ! i =
                pushData (newSkinData (stamp exampleWorld i) item) (url (skins (data ?st) ! i))
                  (skins (data ?st) ! i)"
    using c by blast
  have i0: "0 < length (skins (data ?st))" unfolding sk by (simp add: threeSkins_def)
  have i2: "2 < length (skins (data ?st))" unfolding sk by (simp add: threeSkins_def)
  have c4: "map price (skindata (skins (data ?r) ! 0)) = [10]"
    unfolding c3 [OF i0 fetch_exampleWorld_0] sk
    by (simp add: threeSkins_def exampleSkin_def pushData_def newSkinData_def exampleListing_def)
  have c5: "map price (skindata (skins (data ?r) ! 2)) = [10]"
    unfolding c3 [OF i2 fetch_exampleWorld_2] sk
    by (simp add: threeSkins_def exampleSkin_def pushData_def newSkinData_def exampleListing_def)
  show ?thesis using d l f c1 c2 c4 c5 by simp
qed

text \<open>
  C10. A cycle (timer-driven or through \<open>manualTrigger\<close>) over an empty item list returns
  at once: no request is made, nothing is appended, no notifier call is made and the
  settings, \<^verbatim>\<open>lastRun\<close> included, stay as they were.
\<close>

theorem empty_cycle_is_noop:
  assumes "skins (data st) = []"
  shows "executeScheduledFetch w cfg st = st \<and> manualTrigger w cfg st = st \<and>
         requested (executeScheduledFetch w cfg st) = requested st \<and>
         data (executeScheduledFetch w cfg st) = data st \<and>
         notified (executeScheduledFetch w cfg st) = notified st \<and>
         settings (executeScheduledFetch w cfg st) = settings st"
  using assms by (simp add: executeScheduledFetch_def manualTrigger_def getSkins_def)

theorem empty_cycle_is_noop_witness:
  "skins (data (exampleSys [])) = [] \<and>
   executeScheduledFetch exampleWorld (autoScheduler exampleSettings) (exampleSys []) = exampleSys [] \<and>
   lastRun (autoScheduler (settings
     (manualTrigger exampleWorld (autoScheduler exampleSettings) (exampleSys [])))) = None"
proof -
  have e: "skins (data (exampleSys [])) = []" by (simp add: exampleSys_def)
  from empty_cycle_is_noop [OF e, of exampleWorld "autoScheduler exampleSettings"]
  show ?thesis using e by (simp add: exampleSys_def exampleSettings_def)
qed

section \<open>Properties of change and threshold detection\<close>

lemma price_expire [simp]: "price (expire x) = price x"
  by (simp add: expire_def)

lemma sendAll_all: "(\<And>x. ok x) \<Longrightarrow> sendAll ok xs = (xs, True)"
  by (induction xs) auto

lemma length_thresholdCalls: "length (thresholdCalls skin nd p) \<le> 2"
  by (simp add: thresholdCalls_def split: option.split)

lemma High_in_thresholdCalls:
  "Threshold skin nd High \<in> set (thresholdCalls skin nd p) \<longleftrightarrow>
     (\<exists>t h. thresholds skin = Some t \<and> high t = Some h \<and> h \<noteq> 0 \<and> h \<le> p)"
  by (cases "thresholds skin"; cases "high (the (thresholds skin))")
     (auto simp: thresholdCalls_def highHit_def)

lemma Low_in_thresholdCalls:
  "Threshold skin nd Low \<in> set (thresholdCalls skin nd p) \<longleftrightarrow>
     (\<exists>t l. thresholds skin = Some t \<and> low t = Some l \<and> l \<noteq> 0 \<and> p \<le> l)"
  by (cases "thresholds skin"; cases "low (the (thresholds skin))")
     (auto simp: thresholdCalls_def lowHit_def)

lemma PriceUpdate_notin_thresholdCalls [simp]:
  "PriceUpdate a b \<notin> set (thresholdCalls skin nd p)"
  by (auto simp: thresholdCalls_def split: option.splits)

lemma previous_of_pushData:
  "skindata before \<noteq> [] \<Longrightarrow>
     skindata (pushData sd u before) ! (length (skindata (pushData sd u before)) - 2) =
       expire (last (skindata before))"
  by (simp add: pushData_def nth_append last_conv_nth)

lemma thresholds_pushData [simp]: "thresholds (pushData sd u s) = thresholds s"
  by (simp add: pushData_def)

lemma PriceUpdate_planned:
  "PriceUpdate (pushData sd u before) nd \<in> set (plannedNotifications (pushData sd u before) nd) \<longleftrightarrow>
     skindata before \<noteq> [] \<and> price (last (skindata before)) \<noteq> price nd"
proof (cases "skindata before = []")
  case True
  then show ?thesis by (simp add: plannedNotifications_def pushData_def)
next
  case False
  then have "length (skindata (pushData sd u before)) > 1"
    by (cases "skindata before") (simp_all add: pushData_def)
  then show ?thesis using False previous_of_pushData [OF False, of sd u]
    by (simp add: plannedNotifications_def Let_def)
qed

lemma PriceUpdate_scheduled:
  "PriceUpdate after nd \<in> set (scheduledNotifications before after nd p) \<longleftrightarrow>
     skindata before = [] \<or> price (last (skindata before)) \<noteq> p"
  by (simp add: scheduledNotifications_def priceChanged_def split: list.split)

lemma length_planned: "length (plannedNotifications skin nd) \<le> 3"
  using length_thresholdCalls [of skin nd "price nd"]
  by (simp add: plannedNotifications_def Let_def)

lemma length_scheduled: "length (scheduledNotifications before after nd p) \<le> 3"
  using length_thresholdCalls [of after nd p]
  by (simp add: scheduledNotifications_def)

text \<open>
  C2 (amended). When no notifier call throws: after an append, the service's detector
  (\<open>checkAndSendNotifications\<close>) makes a price-change call iff the item had a previous
  observation and its price differs from the new one, while the scheduler's detector
  makes one iff the item had no previous observation or its price differs; either makes a
  high-threshold call iff a high bound is present, is not 0 and the new price is at least
  the bound, and a low-threshold call iff a low bound is present, is not 0 and the new
  price is at most the bound. The checks do not exclude one another, and at most three
  calls are made for one observation.
\<close>

theorem detector_intents:
  assumes ok: "\<And>x. ok x"
    and after: "after = pushData sd u before"
    and nd: "nd = sd\<lparr>expired := Some False\<rparr>"
    and svc: "svc = checkAndSendNotifications ok after nd"
    and sch: "sch = fst (sendAll ok (scheduledNotifications before after nd (price sd)))"
  shows "(PriceUpdate after nd \<in> set svc \<longleftrightarrow>
            skindata before \<noteq> [] \<and> price (last (skindata before)) \<noteq> price sd) \<and>
         (PriceUpdate after nd \<in> set sch \<longleftrightarrow>
            skindata before = [] \<or> price (last (skindata before)) \<noteq> price sd) \<and>
         (Threshold after nd High \<in> set svc \<longleftrightarrow>
            (\<exists>t h. thresholds before = Some t \<and> high t = Some h \<and> h \<noteq> 0 \<and> h \<le> price sd)) \<and>
         (Threshold after nd High \<in> set sch \<longleftrightarrow>
            (\<exists>t h. thresholds before = Some t \<and> high t = Some h \<and> h \<noteq> 0 \<and> h \<le> price sd)) \<and>
         (Threshold after nd Low \<in> set svc \<longleftrightarrow>
            (\<exists>t l. thresholds before = Some t \<and> low t = Some l \<and> l \<noteq> 0 \<and> price sd \<le> l)) \<and>
         (Threshold after nd Low \<in> set sch \<longleftrightarrow>
            (\<exists>t l. thresholds before = Some t \<and> low t = Some l \<and> l \<noteq> 0 \<and> price sd \<le> l)) \<and>
         length svc \<le> 3 \<and> length sch \<le> 3"
proof -
  have svc': "svc = plannedNotifications after nd"
    unfolding svc checkAndSendNotifications_def by (simp add: sendAll_all [of ok, OF ok])
  have sch': "sch = scheduledNotifications before after nd (price sd)"
    unfolding sch by (simp add: sendAll_all [of ok, OF ok])
  have pnd: "price nd = price sd" by (simp add: nd)
  have p1: "PriceUpdate after nd \<in> set svc \<longleftrightarrow>
            skindata before \<noteq> [] \<and> price (last (skindata before)) \<noteq> price sd"
    unfolding svc' after using PriceUpdate_planned [of sd u before nd] by (simp add: pnd)
  have p2: "PriceUpdate after nd \<in> set sch \<longleftrightarrow>
            skindata before = [] \<or> price (last (skindata before)) \<noteq> price sd"
    unfolding sch' by (rule PriceUpdate_scheduled)
  have th: "thresholds after = thresholds before" by (simp add: after)
  have h1: "Threshold after nd High \<in> set svc \<longleftrightarrow>
            (\<exists>t h. thresholds before = Some t \<and> high t = Some h \<and> h \<noteq> 0 \<and> h \<le> price sd)"
    unfolding svc' by (simp add: plannedNotifications_def Let_def High_in_thresholdCalls th pnd)
  have h2: "Threshold after nd High \<in> set sch \<longleftrightarrow>
            (\<exists>t h. thresholds before = Some t \<and> high t = Some h \<and> h \<noteq> 0 \<and> h \<le> price sd)"
    unfolding sch' by (simp add: scheduledNotifications_def High_in_thresholdCalls th)
  have l1: "Threshold after nd Low \<in> set svc \<longleftrightarrow>
            (\<exists>t l. thresholds before = Some t \<and> low t = Some l \<and> l \<noteq> 0 \<and> price sd \<le> l)"
    unfolding svc' by (simp add: plannedNotifications_def Let_def Low_in_thresholdCalls th pnd)
  have l2: "Threshold after nd Low \<in> set sch \<longleftrightarrow>
            (\<exists>t l. thresholds before = Some t \<and> low t = Some l \<and> l \<noteq> 0 \<and> price sd \<le> l)"
    unfolding sch' by (simp add: scheduledNotifications_def Low_in_thresholdCalls th)
  have n1: "length svc \<le> 3" unfolding svc' by (rule length_planned)
  have n2: "length sch \<le> 3" unfolding sch' by (rule length_scheduled)
  show ?thesis using p1 p2 h1 h2 l1 l2 n1 n2 by blast
qed

theorem detector_intents_witness:
  "PriceUpdate (pushData (exampleObservation 50) [1] trackedOnce)
      (exampleObservation 50\<lparr>expired := Some False\<rparr>)
     \<in> set (checkAndSendNotifications (\<lambda>x. True)
              (pushData (exampleObservation 50) [1] trackedOnce)
              (exampleObservation 50\<lparr>expired := Some False\<rparr>)) \<and>
   Threshold (pushData (exampleObservation 50) [1] trackedOnce)
      (exampleObservation 50\<lparr>expired := Some False\<rparr>) High
     \<in> set (checkAndSendNotifications (\<lambda>x. True)
              (pushData (exampleObservation 50) [1] trackedOnce)
              (exampleObservation 50\<lparr>expired := Some False\<rparr>)) \<and>
   Threshold (pushData (exampleObservation 50) [1] trackedOnce)
      (exampleObservation 50\<lparr>expired := Some False\<rparr>) Low
     \<in> set (checkAndSendNotifications (\<lambda>x. True)
              (pushData (exampleObservation 50) [1] trackedOnce)
              (exampleObservation 50\<lparr>expired := Some False\<rparr>)) \<and>
   length (checkAndSendNotifications (\<lambda>x. True)
              (pushData (exampleObservation 50) [1] trackedOnce)
              (exampleObservation 50\<lparr>expired := Some False\<rparr>)) \<le> 3"
proof -
  let ?after = "pushData (exampleObservation 50) [1] trackedOnce"
  let ?nd = "exampleObservation 50\<lparr>expired := Some False\<rparr>"
  let ?svc = "checkAndSendNotifications (\<lambda>x. True) ?after ?nd"
  note d = detector_intents [of "\<lambda>x. True" ?after "exampleObservation 50" "[1]" trackedOnce
      ?nd ?svc _, OF TrueI refl refl refl refl]
  have p: "price (exampleObservation 50) = 50" "price (last (skindata trackedOnce)) = 10"
    "skindata trackedOnce \<noteq> []"
    "thresholds trackedOnce = Some \<lparr>high = Some 5, low = Some 200\<rparr>"
    by (simp_all add: exampleObservation_def trackedOnce_def exampleSkin_def)
  have a: "PriceUpdate ?after ?nd \<in> set ?svc" using d p by simp
  have b: "Threshold ?after ?nd High \<in> set ?svc" using d p by simp
  have c: "Threshold ?after ?nd Low \<in> set ?svc" using d p by simp
  have n: "length ?svc \<le> 3" using d by simp
  show ?thesis using a b c n by simp
qed

text \<open>
  The claim as stated fails in the scheduler: a cycle over one item with an empty history
  makes a price-change call although there is no prior observation.
\<close>

theorem first_observation_counterexample:
  "skindata (getSkins (data (exampleSys [exampleSkin 1 [] None])) ! 0) = [] \<and>
   (\<exists>a b. notified (executeScheduledFetch exampleWorld (autoScheduler exampleSettings)
                     (exampleSys [exampleSkin 1 [] None])) = [PriceUpdate a b])"
  by (simp add: executeScheduledFetch_def getSkins_def exampleSys_def exampleSkin_def
      cycleFrom.simps fetchOne_def exampleWorld_def Let_def addSkinData_def getSkin_def
      sameSkin_def scheduledNotifications_def priceChanged_def thresholdCalls_def
      pushData_def)

section \<open>Properties of the price text normalizer\<close>

lemma digitsValueFrom_foldl: "digitsValueFrom acc ds = foldl (\<lambda>a c. 10 * a + (c - 48)) acc ds"
  by (induction ds arbitrary: acc) (simp_all add: digitValue_def)

lemma parseFloat_nonneg: "parseFloat s = Some v \<Longrightarrow> 0 \<le> v"
  by (auto simp: parseFloat_def Let_def split: if_splits)

lemma set_joinDigits: "set (joinDigits s) \<subseteq> set s"
  by (induction s rule: joinDigits.induct) auto

lemma set_replaceFirstComma: "set (replaceFirstComma s) \<subseteq> insert 46 (set s)"
  by (induction s) auto

lemma not_isDigit_46 [simp]: "\<not> isDigit 46"
  by (simp add: isDigit_def)

lemma not_isDigit_44 [simp]: "\<not> isDigit 44"
  by (simp add: isDigit_def)

lemma digits_priceNumeral:
  assumes "c \<in> set (priceNumeral text)" and "isDigit c"
  shows "c \<in> set text"
proof -
  have n: "set (normalizePriceText text) \<subseteq> set text"
    unfolding normalizePriceText_def using set_joinDigits by fastforce
  have "set (priceNumeral text) \<subseteq> insert 46 (set (normalizePriceText text))"
    unfolding priceNumeral_def Let_def
    using set_replaceFirstComma [of "normalizePriceText text"]
      set_replaceFirstComma [of "filter (\<lambda>c. c \<noteq> 46) (normalizePriceText text)"]
    by auto
  then show ?thesis using assms n by auto
qed

lemma parseFloat_no_digit:
  assumes "\<forall>c \<in> set s. \<not> isDigit c"
  shows "parseFloat s = None"
proof -
  have a: "takeWhile isDigit s = []" using assms by (cases s) auto
  then have b: "dropWhile isDigit s = s" by (cases s) (auto split: if_splits)
  have c: "\<And>x xs. s = x # xs \<Longrightarrow> takeWhile isDigit xs = []"
  proof -
    fix x xs assume "s = x # xs"
    then have "\<forall>c \<in> set xs. \<not> isDigit c" using assms by simp
    then show "takeWhile isDigit xs = []" by (cases xs) auto
  qed
  show ?thesis using a b c by (cases s) (simp_all add: parseFloat_def Let_def)
qed

lemma find_None_all: "\<forall>c \<in> set s. \<not> P c \<Longrightarrow> find P s = None"
  by (induction s) auto

text \<open>
  C6. \<open>parsePrice\<close> is a total function with no error result. Its amount is never
  negative; it is 0 whenever \<^verbatim>\<open>parseFloat\<close> finds no number in the cleaned text, in
  particular whenever the text holds no digit; and its currency is "$" whenever the text
  holds no currency-symbol character.
\<close>

theorem parsePrice_total:
  "0 \<le> fst (parsePrice sc text) \<and>
   (parseFloat (priceNumeral text) = None \<longrightarrow> fst (parsePrice sc text) = 0) \<and>
   ((\<forall>c \<in> set text. \<not> isDigit c) \<longrightarrow> fst (parsePrice sc text) = 0) \<and>
   ((\<forall>c \<in> set text. \<not> sc c) \<longrightarrow> snd (parsePrice sc text) = str ''$'')"
proof -
  have a: "0 \<le> fst (parsePrice sc text)"
    by (cases "parseFloat (priceNumeral text)")
       (simp_all add: parsePrice_def Let_def parseFloat_nonneg)
  have b: "parseFloat (priceNumeral text) = None \<longrightarrow> fst (parsePrice sc text) = 0"
    by (simp add: parsePrice_def Let_def)
  have c: "(\<forall>c \<in> set text. \<not> isDigit c) \<longrightarrow> fst (parsePrice sc text) = 0"
  proof
    assume nd: "\<forall>c \<in> set text. \<not> isDigit c"
    have "\<forall>c \<in> set (priceNumeral text). \<not> isDigit c"
      using nd digits_priceNumeral by blast
    then have "parseFloat (priceNumeral text) = None" by (rule parseFloat_no_digit)
    then show "fst (parsePrice sc text) = 0" by (simp add: parsePrice_def Let_def)
  qed
  have d: "(\<forall>c \<in> set text. \<not> sc c) \<longrightarrow> snd (parsePrice sc text) = str ''$''"
    by (simp add: parsePrice_def Let_def find_None_all)
  show ?thesis using a b c d by blast
qed

lemma parsePrice_sold: "parsePrice unicodeSc (str ''Sold!'') = (0, str ''$'')"
  by (simp add: parsePrice_def priceNumeral_def normalizePriceText_def str_def isDigit_def
      isSpace_def endsWithCommaTwoDigits_def parseFloat_def digitsValue_def digitValue_def
      unicodeSc_def Let_def)

lemma parsePrice_five: "parsePrice unicodeSc (str ''$5.00'') = (5, str ''$'')"
  by (simp add: parsePrice_def priceNumeral_def normalizePriceText_def str_def isDigit_def
      isSpace_def endsWithCommaTwoDigits_def parseFloat_def digitsValue_def digitValue_def
      unicodeSc_def Let_def)

theorem parsePrice_total_witness:
  "parseFloat (priceNumeral (str ''Sold!'')) = None \<and>
   fst (parsePrice unicodeSc (str ''Sold!'')) = 0 \<and>
   snd (parsePrice unicodeSc (str ''Sold!'')) = str ''$''"
proof -
  have a: "\<forall>c \<in> set (str ''Sold!''). \<not> isDigit c" by (simp add: str_def isDigit_def)
  have b: "\<forall>c \<in> set (str ''Sold!''). \<not> unicodeSc c" by (simp add: str_def unicodeSc_def)
  have c: "parseFloat (priceNumeral (str ''Sold!'')) = None"
    by (simp add: priceNumeral_def normalizePriceText_def str_def isDigit_def
        endsWithCommaTwoDigits_def parseFloat_def Let_def)
  from parsePrice_total [of unicodeSc "str ''Sold!''"] a b c show ?thesis by blast
qed

lemma isDigit_not_isSpace: "isDigit c \<Longrightarrow> \<not> isSpace c"
  by (auto simp: isDigit_def isSpace_def)

lemma joinDigits_id: "\<forall>c \<in> set s. \<not> isSpace c \<Longrightarrow> joinDigits s = s"
  by (induction s rule: joinDigits.induct) auto

lemma takeWhile_digits_dot:
  "list_all isDigit ip \<Longrightarrow> takeWhile isDigit (ip @ 46 # fp) = ip"
  by (induction ip) auto

lemma dropWhile_digits_dot:
  "list_all isDigit ip \<Longrightarrow> dropWhile isDigit (ip @ 46 # fp) = 46 # fp"
  by (induction ip) auto

lemma takeWhile_all_digits: "list_all isDigit ds \<Longrightarrow> takeWhile isDigit ds = ds"
  by (induction ds) auto

lemma dropWhile_all_digits: "list_all isDigit ds \<Longrightarrow> dropWhile isDigit ds = []"
  by (induction ds) auto

lemma endsWithCommaTwoDigits_no_comma: "44 \<notin> set s \<Longrightarrow> \<not> endsWithCommaTwoDigits s"
proof -
  assume n: "44 \<notin> set s"
  then have "44 \<notin> set (rev s)" by simp
  then show ?thesis unfolding endsWithCommaTwoDigits_def
    by (auto split: list.splits)
qed

lemma priceNumeral_decimal:
  assumes "\<forall>c \<in> set r. isDigit c \<or> c = 46"
  shows "priceNumeral r = r"
proof -
  have f: "filter (\<lambda>c. isDigit c \<or> c = 44 \<or> c = 46) r = r"
    using assms by (auto simp: filter_id_conv)
  have "\<not> isSpace 46" by (simp add: isSpace_def)
  then have sp: "\<forall>c \<in> set r. \<not> isSpace c"
    using assms isDigit_not_isSpace by blast
  have n: "normalizePriceText r = r"
    unfolding normalizePriceText_def f using sp by (rule joinDigits_id)
  have nc: "44 \<notin> set r" using assms by auto
  then have fc: "filter (\<lambda>c. c \<noteq> 44) r = r" by (auto simp: filter_id_conv)
  show ?thesis
    unfolding priceNumeral_def Let_def n
    using endsWithCommaTwoDigits_no_comma [OF nc] fc by simp
qed

lemma isDotDecimal_chars:
  assumes "isDotDecimal r"
  shows "\<forall>c \<in> set r. isDigit c \<or> c = 46"
proof -
  define ip where "ip = takeWhile (\<lambda>c. c \<noteq> 46) r"
  define fp where "fp = drop (Suc (length ip)) r"
  have ip: "list_all isDigit ip" and fpd: "list_all isDigit fp"
    and shape: "r = ip \<or> r = ip @ 46 # fp"
    using assms unfolding isDotDecimal_def Let_def ip_def fp_def by auto
  from shape show ?thesis
  proof
    assume "r = ip"
    then show ?thesis using ip by (simp add: list_all_iff)
  next
    assume r: "r = ip @ 46 # fp"
    have "\<forall>c \<in> set (ip @ 46 # fp). isDigit c \<or> c = 46"
      using ip fpd by (auto simp: list_all_iff)
    then show ?thesis using r by simp
  qed
qed

lemma parseFloat_decimal:
  assumes "isDotDecimal r"
  shows "parseFloat r = Some (decimalValue r)"
proof -
  define ip where "ip = takeWhile (\<lambda>c. c \<noteq> 46) r"
  define fp where "fp = drop (Suc (length ip)) r"
  have ip: "ip \<noteq> []" "list_all isDigit ip" and fpd: "list_all isDigit fp"
    and shape: "r = ip \<or> (fp \<noteq> [] \<and> r = ip @ 46 # fp)"
    using assms unfolding isDotDecimal_def Let_def ip_def fp_def by auto
  have dv: "decimalValue r = real (digitsValue ip) + real (digitsValue fp) / 10 ^ length fp"
    unfolding decimalValue_def Let_def ip_def [symmetric] fp_def [symmetric]
    by (simp add: digitsValue_def digitsValueFrom_foldl)
  from shape show ?thesis
  proof
    assume r: "r = ip"
    then have "fp = []" unfolding fp_def by simp
    then show ?thesis unfolding dv using r ip
      by (simp add: parseFloat_def Let_def takeWhile_all_digits dropWhile_all_digits
          digitsValue_def)
  next
    assume r: "fp \<noteq> [] \<and> r = ip @ 46 # fp"
    then show ?thesis unfolding dv using ip fpd
      by (simp add: parseFloat_def Let_def takeWhile_digits_dot dropWhile_digits_dot
          takeWhile_all_digits)
  qed
qed

lemma renormalize_amount:
  assumes "rendersAmount r (fst (parsePrice sc text))"
    and "\<forall>c. isDigit c \<or> c = 46 \<longrightarrow> \<not> sc c"
  shows "fst (parsePrice sc r) = fst (parsePrice sc text) \<and> snd (parsePrice sc r) = str ''$''"
proof -
  have dd: "isDotDecimal r" and v: "decimalValue r = fst (parsePrice sc text)"
    using assms(1) by (simp_all add: rendersAmount_def)
  have ch: "\<forall>c \<in> set r. isDigit c \<or> c = 46" using dd by (rule isDotDecimal_chars)
  have "parseFloat (priceNumeral r) = Some (decimalValue r)"
    unfolding priceNumeral_decimal [OF ch] using dd by (rule parseFloat_decimal)
  then have a: "fst (parsePrice sc r) = fst (parsePrice sc text)"
    using v by (simp add: parsePrice_def Let_def)
  have "\<forall>c \<in> set r. \<not> sc c" using ch assms(2) by blast
  then have b: "snd (parsePrice sc r) = str ''$''"
    by (simp add: parsePrice_def Let_def find_None_all)
  show ?thesis using a b by simp
qed

lemma priceNumeral_skip:
  "\<not> isDigit c \<Longrightarrow> c \<noteq> 44 \<Longrightarrow> c \<noteq> 46 \<Longrightarrow> priceNumeral (c # r) = priceNumeral r"
  by (simp add: priceNumeral_def normalizePriceText_def)

lemma find_Some_holds: "find P xs = Some x \<Longrightarrow> P x"
  by (induction xs) (auto split: if_splits)

lemma str_dollar: "str ''$'' = [36]"
  by (simp add: str_def)

lemma parsePrice_with_currency:
  assumes "\<forall>c. isDigit c \<or> c = 44 \<or> c = 46 \<longrightarrow> \<not> sc c"
    and "\<forall>c \<in> set r. \<not> sc c"
  shows "parsePrice sc (snd (parsePrice sc text) @ r) = (fst (parsePrice sc r), snd (parsePrice sc text))"
proof (cases "find sc text")
  case None
  then have cur: "snd (parsePrice sc text) = [36]" by (simp add: parsePrice_def Let_def str_dollar)
  have nd: "\<not> isDigit 36" by (simp add: isDigit_def)
  have pn: "priceNumeral (36 # r) = priceNumeral r" using nd by (simp add: priceNumeral_skip)
  have "find sc r = None" using assms(2) by (rule find_None_all)
  then have "snd (parsePrice sc (36 # r)) = [36]"
    by (simp add: parsePrice_def Let_def str_dollar)
  moreover have "fst (parsePrice sc (36 # r)) = fst (parsePrice sc r)"
    using pn by (simp add: parsePrice_def Let_def)
  ultimately show ?thesis unfolding cur by (simp add: prod_eq_iff)
next
  case (Some c)
  then have scc: "sc c" by (rule find_Some_holds)
  then have nc: "\<not> isDigit c" "c \<noteq> 44" "c \<noteq> 46" using assms(1) by blast+
  have cur: "snd (parsePrice sc text) = [c]" using Some by (simp add: parsePrice_def Let_def)
  have pn: "priceNumeral (c # r) = priceNumeral r" using nc by (rule priceNumeral_skip)
  have "snd (parsePrice sc (c # r)) = [c]" using scc by (simp add: parsePrice_def Let_def)
  moreover have "fst (parsePrice sc (c # r)) = fst (parsePrice sc r)"
    using pn by (simp add: parsePrice_def Let_def)
  ultimately show ?thesis unfolding cur by (simp add: prod_eq_iff)
qed

text \<open>
  C9 (amended). If \<open>r\<close> is the canonical dot-decimal rendering of the amount that
  normalizing a price text yields, then normalizing \<open>r\<close> yields the same amount; with the
  currency symbol of the first normalization put in front of \<open>r\<close> it yields the same
  amount and currency, while \<open>r\<close> alone yields the currency "$" (digits, commas and dots
  are not currency symbols).
\<close>

theorem renormalize_rendering:
  assumes "rendersAmount r (fst (parsePrice sc text))"
    and "\<forall>c. isDigit c \<or> c = 44 \<or> c = 46 \<longrightarrow> \<not> sc c"
  shows "fst (parsePrice sc r) = fst (parsePrice sc text) \<and>
         snd (parsePrice sc r) = str ''$'' \<and>
         parsePrice sc (snd (parsePrice sc text) @ r) = parsePrice sc text"
proof -
  have h: "\<forall>c. isDigit c \<or> c = 46 \<longrightarrow> \<not> sc c" using assms(2) by blast
  have a: "fst (parsePrice sc r) = fst (parsePrice sc text)"
    and b: "snd (parsePrice sc r) = str ''$''"
    using renormalize_amount [OF assms(1) h] by simp_all
  have dd: "isDotDecimal r" using assms(1) by (simp add: rendersAmount_def)
  have "\<forall>c \<in> set r. \<not> sc c" using isDotDecimal_chars [OF dd] h by blast
  then have "parsePrice sc (snd (parsePrice sc text) @ r) =
               (fst (parsePrice sc r), snd (parsePrice sc text))"
    using assms(2) parsePrice_with_currency by blast
  then have c: "parsePrice sc (snd (parsePrice sc text) @ r) = parsePrice sc text"
    using a by (simp add: prod_eq_iff)
  show ?thesis using a b c by simp
qed

lemma parsePrice_comma: "parsePrice unicodeSc (str ''12,34'') = (1234 / 100, str ''$'')"
  by (simp add: parsePrice_def priceNumeral_def normalizePriceText_def str_def isDigit_def
      isSpace_def endsWithCommaTwoDigits_def parseFloat_def digitsValue_def digitValue_def
      unicodeSc_def Let_def)

lemma renders_12_34: "rendersAmount (str ''12.34'') (1234 / 100)"
  by (simp add: rendersAmount_def isDotDecimal_def decimalValue_def str_def isDigit_def Let_def)

lemma separators_not_currency: "\<forall>c. isDigit c \<or> c = 44 \<or> c = 46 \<longrightarrow> \<not> unicodeSc c"
  by (auto simp: isDigit_def unicodeSc_def)

lemma parsePrice_comma_euro: "parsePrice unicodeSc (str ''12,34'' @ [8364]) = (1234 / 100, [8364])"
  by (simp add: parsePrice_def priceNumeral_def normalizePriceText_def str_def isDigit_def
      isSpace_def endsWithCommaTwoDigits_def parseFloat_def digitsValue_def digitValue_def
      unicodeSc_def Let_def)

theorem renormalize_rendering_witness:
  "rendersAmount (str ''12.34'') (fst (parsePrice unicodeSc (str ''12,34'' @ [8364]))) \<and>
   fst (parsePrice unicodeSc (str ''12.34'')) = 1234 / 100 \<and>
   snd (parsePrice unicodeSc (str ''12.34'')) = str ''$'' \<and>
   parsePrice unicodeSc ([8364] @ str ''12.34'') = (1234 / 100, [8364])"
proof -
  have r: "rendersAmount (str ''12.34'') (fst (parsePrice unicodeSc (str ''12,34'' @ [8364])))"
    using renders_12_34 by (simp add: parsePrice_comma_euro)
  from renormalize_rendering [OF r separators_not_currency]
  show ?thesis using r by (simp add: parsePrice_comma_euro)
qed

text \<open>
  The claim as stated asks for the same currency from the rendering of the amount alone.
  The text "12,34" followed by a euro sign normalizes to 12.34 with the euro sign as
  currency; the rendering "12.34" of that amount normalizes to 12.34 with currency "$".
\<close>

theorem currency_lost_counterexample:
  "rendersAmount (str ''12.34'') (fst (parsePrice unicodeSc (str ''12,34'' @ [8364]))) \<and>
   snd (parsePrice unicodeSc (str ''12.34'')) \<noteq> snd (parsePrice unicodeSc (str ''12,34'' @ [8364]))"
proof -
  have r: "rendersAmount (str ''12.34'') (fst (parsePrice unicodeSc (str ''12,34'' @ [8364])))"
    using renders_12_34 by (simp add: parsePrice_comma_euro)
  have c: "snd (parsePrice unicodeSc (str ''12.34'')) = str ''$''"
    by (simp add: parsePrice_def Let_def str_def unicodeSc_def)
  have ne: "str ''$'' \<noteq> [8364]" by (simp add: str_def)
  show ?thesis using r c ne by (simp add: parsePrice_comma_euro)
qed

section \<open>Properties of the name and exterior classifier\<close>

lemma scan_no_match:
  "(\<forall>i < length s. \<not> matchesIgnoreCase kw (drop i s)) \<Longrightarrow> removeKeyword kw prev s = s"
proof (induction s arbitrary: prev)
  case Nil
  then show ?case by (simp add: removeKeyword.simps)
next
  case (Cons c cs)
  have "\<not> matchesIgnoreCase kw (drop 0 (c # cs))" using Cons.prems by blast
  then have nk: "\<not> keywordAt kw prev (c # cs)" by (simp add: keywordAt_def)
  have "\<forall>i < length cs. \<not> matchesIgnoreCase kw (drop i cs)"
  proof (intro allI impI)
    fix i assume "i < length cs"
    then have "\<not> matchesIgnoreCase kw (drop (Suc i) (c # cs))" using Cons.prems by auto
    then show "\<not> matchesIgnoreCase kw (drop i cs)" by simp
  qed
  then have "removeKeyword kw (Some c) cs = cs" by (rule Cons.IH)
  then show ?case using nk by (simp add: removeKeyword.simps)
qed

lemma scan_prefix:
  "(\<forall>i < length pre. \<not> matchesIgnoreCase kw (drop i (pre @ rest))) \<Longrightarrow>
     removeKeyword kw prev (pre @ rest) =
       pre @ removeKeyword kw (if pre = [] then prev else Some (last pre)) rest"
proof (induction pre arbitrary: prev)
  case Nil
  then show ?case by simp
next
  case (Cons c cs)
  have "\<not> matchesIgnoreCase kw (drop 0 ((c # cs) @ rest))" using Cons.prems by blast
  then have nk: "\<not> keywordAt kw prev (c # cs @ rest)" by (simp add: keywordAt_def)
  have "\<forall>i < length cs. \<not> matchesIgnoreCase kw (drop i (cs @ rest))"
  proof (intro allI impI)
    fix i assume "i < length cs"
    then have "\<not> matchesIgnoreCase kw (drop (Suc i) ((c # cs) @ rest))"
      using Cons.prems by auto
    then show "\<not> matchesIgnoreCase kw (drop i (cs @ rest))" by simp
  qed
  then have "removeKeyword kw (Some c) (cs @ rest) =
      cs @ removeKeyword kw (if cs = [] then Some c else Some (last cs)) rest"
    by (rule Cons.IH)
  then show ?case using nk by (simp add: removeKeyword.simps)
qed

lemma matchesIgnoreCase_variant:
  "map canonicalize occ = map canonicalize kw \<Longrightarrow> matchesIgnoreCase kw (occ @ post)"
proof (induction kw arbitrary: occ)
  case Nil
  then show ?case by simp
next
  case (Cons p ps)
  then obtain c cs where occ: "occ = c # cs" by (cases occ) auto
  then show ?case using Cons by simp
qed

lemma canonicalize_lower: "97 \<le> c \<Longrightarrow> c \<le> 122 \<Longrightarrow> canonicalize c = c - 32"
  by (simp add: canonicalize_def)

lemma canonicalize_below: "c < 97 \<Longrightarrow> canonicalize c = c"
  by (simp add: canonicalize_def)

lemma canonicalize_above: "122 < c \<Longrightarrow> canonicalize c = c"
  by (simp add: canonicalize_def)

lemma canonicalize_other: "\<not> (97 \<le> c \<and> c \<le> 122) \<Longrightarrow> canonicalize c = c"
  using canonicalize_below [of c] canonicalize_above [of c] by linarith

lemma lower_injective: "97 \<le> (c::nat) \<Longrightarrow> 97 \<le> p \<Longrightarrow> c - 32 = p - 32 \<Longrightarrow> c = p"
  by linarith

lemma canonicalize_cases:
  assumes "canonicalize c = canonicalize p"
  shows "c = p \<or> (97 \<le> c \<and> c \<le> 122 \<and> p = c - 32) \<or> (97 \<le> p \<and> p \<le> 122 \<and> c = p - 32)"
proof (cases "97 \<le> c \<and> c \<le> 122")
  case c: True
  then have cc: "canonicalize c = c - 32" by (simp add: canonicalize_lower)
  show ?thesis
  proof (cases "97 \<le> p \<and> p \<le> 122")
    case True
    then have "canonicalize p = p - 32" by (simp add: canonicalize_lower)
    then have "c - 32 = p - 32" using assms cc by simp
    then have "c = p" using c True lower_injective by blast
    then show ?thesis by simp
  next
    case False
    then have "canonicalize p = p" by (rule canonicalize_other)
    then have "p = c - 32" using assms cc by simp
    then show ?thesis using c by simp
  qed
next
  case c: False
  then have cc: "canonicalize c = c" by (rule canonicalize_other)
  show ?thesis
  proof (cases "97 \<le> p \<and> p \<le> 122")
    case True
    then have "canonicalize p = p - 32" by (simp add: canonicalize_lower)
    then have "c = p - 32" using assms cc by simp
    then show ?thesis using True by simp
  next
    case False
    then have "canonicalize p = p" by (rule canonicalize_other)
    then have "c = p" using assms cc by simp
    then show ?thesis by simp
  qed
qed

lemma upper_range: "97 \<le> (c::nat) \<Longrightarrow> c \<le> 122 \<Longrightarrow> 65 \<le> c - 32 \<and> c - 32 \<le> 90"
  by linarith

lemma upper_back: "97 \<le> (c::nat) \<Longrightarrow> c - 32 + 32 = c"
  by linarith

lemma isWordChar_lower: "97 \<le> c \<Longrightarrow> c \<le> 122 \<Longrightarrow> isWordChar c"
  by (simp add: isWordChar_def)

lemma isWordChar_upper: "97 \<le> c \<Longrightarrow> c \<le> 122 \<Longrightarrow> isWordChar (c - 32)"
  using upper_range [of c] by (simp add: isWordChar_def)

lemma isWordChar_canonicalize:
  assumes "canonicalize c = canonicalize p"
  shows "isWordChar c = isWordChar p"
proof -
  from canonicalize_cases [OF assms] consider
    "c = p" | "97 \<le> c \<and> c \<le> 122 \<and> p = c - 32" | "97 \<le> p \<and> p \<le> 122 \<and> c = p - 32"
    by blast
  then show ?thesis
  proof cases
    case 1
    then show ?thesis by simp
  next
    case 2
    then show ?thesis using isWordChar_lower [of c] isWordChar_upper [of c] by simp
  next
    case 3
    then show ?thesis using isWordChar_lower [of p] isWordChar_upper [of p] by simp
  qed
qed

lemma lowerCodePoint_lower_upper:
  assumes "97 \<le> c" and "c \<le> 122"
  shows "lowerCodePoint (c - 32) = lowerCodePoint c"
proof -
  have "lowerCodePoint (c - 32) = [c - 32 + 32]"
    using upper_range [OF assms] by (simp add: lowerCodePoint_def)
  then have "lowerCodePoint (c - 32) = [c]" using upper_back [OF assms(1)] by simp
  moreover have "lowerCodePoint c = [c]" using assms by (simp add: lowerCodePoint_def)
  ultimately show ?thesis by simp
qed

lemma lowerCodePoint_canonicalize:
  assumes "canonicalize c = canonicalize p"
  shows "lowerCodePoint c = lowerCodePoint p"
proof -
  from canonicalize_cases [OF assms] consider
    "c = p" | "97 \<le> c \<and> c \<le> 122 \<and> p = c - 32" | "97 \<le> p \<and> p \<le> 122 \<and> c = p - 32"
    by blast
  then show ?thesis
  proof cases
    case 1
    then show ?thesis by simp
  next
    case 2
    then show ?thesis using lowerCodePoint_lower_upper [of c] by simp
  next
    case 3
    then show ?thesis using lowerCodePoint_lower_upper [of p] by simp
  qed
qed

lemma toLowerCase_variant:
  "map canonicalize occ = map canonicalize kw \<Longrightarrow> toLowerCase occ = toLowerCase kw"
proof (induction kw arbitrary: occ)
  case Nil
  then show ?case by simp
next
  case (Cons p ps)
  then obtain c cs where occ: "occ = c # cs" by (cases occ) auto
  then have cp: "canonicalize c = canonicalize p"
    and rest: "map canonicalize cs = map canonicalize ps"
    using Cons.prems by simp_all
  have l: "lowerCodePoint c = lowerCodePoint p"
    using cp by (rule lowerCodePoint_canonicalize)
  have "toLowerCase cs = toLowerCase ps" using rest by (rule Cons.IH)
  then show ?case using l occ by (simp add: toLowerCase_def)
qed

lemma toLowerCase_append [simp]: "toLowerCase (a @ b) = toLowerCase a @ toLowerCase b"
  by (simp add: toLowerCase_def)

lemma startsWith_append: "startsWith (p @ s) p"
  by (induction p) auto

lemma stringIncludes_prefix: "stringIncludes (b @ c) b"
  using startsWith_append [of b c] by (cases "b @ c") auto

lemma stringIncludes_middle: "stringIncludes (a @ b @ c) b"
  by (induction a) (auto simp: stringIncludes_prefix)

lemma find_only:
  "kw \<in> set xs \<Longrightarrow> P kw \<Longrightarrow> (\<forall>x \<in> set xs. x \<noteq> kw \<longrightarrow> \<not> P x) \<Longrightarrow> find P xs = Some kw"
  by (induction xs) auto

lemma removeKeyword_single:
  assumes kw: "kw \<noteq> []" and v: "map canonicalize occ = map canonicalize kw"
    and hw: "isWordChar (hd kw)" and lw: "isWordChar (last kw)"
    and uniq: "\<forall>i < length (pre @ occ @ post). i \<noteq> length pre \<longrightarrow>
                 \<not> matchesIgnoreCase kw (drop i (pre @ occ @ post))"
  shows "removeKeyword kw None (pre @ occ @ post) =
           (if atBoundary pre post then pre @ post else pre @ occ @ post)"
proof -
  have len: "length occ = length kw" using v by (rule map_eq_imp_length_eq)
  then have occ: "occ \<noteq> []" using kw by auto
  then obtain c cs where ccs: "occ @ post = c # cs" and c: "c = hd occ"
    by (cases occ) auto
  have "canonicalize (hd occ) = canonicalize (hd kw)"
    using v occ kw by (metis hd_map)
  then have hocc: "isWordChar (hd occ)" using hw isWordChar_canonicalize by blast
  have "canonicalize (last occ) = canonicalize (last kw)"
    using v occ kw by (metis last_map)
  then have locc: "isWordChar (last occ)" using lw isWordChar_canonicalize by blast
  have "length kw - 1 < length occ" using occ len by (cases occ) auto
  then have "(occ @ post) ! (length kw - 1) = occ ! (length occ - 1)"
    using len by (simp add: nth_append)
  then have nth: "(occ @ post) ! (length kw - 1) = last occ"
    using occ by (simp add: last_conv_nth)
  have dr: "drop (length kw) (occ @ post) = post" using len by simp
  let ?p = "if pre = [] then None else Some (last pre)"
  have pre_free: "\<forall>i < length pre. \<not> matchesIgnoreCase kw (drop i (pre @ (occ @ post)))"
  proof (intro allI impI)
    fix i assume i: "i < length pre"
    then have "i < length (pre @ occ @ post)" and "i \<noteq> length pre" by simp_all
    then show "\<not> matchesIgnoreCase kw (drop i (pre @ (occ @ post)))" using uniq by blast
  qed
  have post_free: "\<forall>i < length post. \<not> matchesIgnoreCase kw (drop i post)"
  proof (intro allI impI)
    fix i assume i: "i < length post"
    have "length pre + length occ + i < length (pre @ occ @ post)" using i by simp
    moreover have "length pre + length occ + i \<noteq> length pre" using occ by simp
    ultimately have "\<not> matchesIgnoreCase kw (drop (length pre + length occ + i) (pre @ occ @ post))"
      using uniq by blast
    then show "\<not> matchesIgnoreCase kw (drop i post)" by simp
  qed
  have cs_free: "\<forall>i < length cs. \<not> matchesIgnoreCase kw (drop i cs)"
  proof (intro allI impI)
    fix i assume i: "i < length cs"
    have l: "length cs = length occ + length post - 1"
      using ccs by (metis length_append length_Cons diff_Suc_1)
    have "length pre + Suc i < length (pre @ occ @ post)" using i l occ by simp
    moreover have "length pre + Suc i \<noteq> length pre" by simp
    ultimately have "\<not> matchesIgnoreCase kw (drop (length pre + Suc i) (pre @ occ @ post))"
      using uniq by blast
    then have "\<not> matchesIgnoreCase kw (drop (Suc i) (occ @ post))" by simp
    then show "\<not> matchesIgnoreCase kw (drop i cs)" unfolding ccs by simp
  qed
  have step1: "removeKeyword kw None (pre @ (occ @ post)) = pre @ removeKeyword kw ?p (occ @ post)"
    using scan_prefix [OF pre_free, of None] by simp
  have wb1: "wordBoundary ?p (occ @ post) \<longleftrightarrow> (pre = [] \<or> \<not> isWordChar (last pre))"
    using hocc ccs c by (simp add: wordBoundary_def isWordOpt_def)
  have wb2: "wordBoundary (Some (last occ)) post \<longleftrightarrow> (post = [] \<or> \<not> isWordChar (hd post))"
    using locc by (cases post) (simp_all add: wordBoundary_def isWordOpt_def)
  have kat: "keywordAt kw ?p (occ @ post) \<longleftrightarrow> atBoundary pre post"
    unfolding keywordAt_def nth dr atBoundary_def
    using wb1 wb2 kw matchesIgnoreCase_variant [OF v, of post] by simp
  show ?thesis
  proof (cases "atBoundary pre post")
    case True
    then have "removeKeyword kw ?p (c # cs) = removeKeyword kw (Some (last occ)) post"
      using kat nth dr unfolding ccs by (simp add: removeKeyword.simps)
    also have "\<dots> = post" using post_free by (rule scan_no_match)
    finally show ?thesis using True step1 ccs by simp
  next
    case False
    then have "removeKeyword kw ?p (c # cs) = c # removeKeyword kw (Some c) cs"
      using kat unfolding ccs by (simp add: removeKeyword.simps)
    also have "\<dots> = c # cs" using scan_no_match [OF cs_free] by simp
    finally show ?thesis using False step1 ccs by simp
  qed
qed

lemma collapseFrom_chars: "list_all (\<lambda>c. isSpace c \<longrightarrow> c = 32) (collapseFrom b s)"
  by (induction s arbitrary: b) auto

lemma noAdjacentSpaces_Cons:
  "noAdjacentSpaces (a # xs) \<longleftrightarrow>
     (xs = [] \<or> (\<not> (isSpace a \<and> isSpace (hd xs)) \<and> noAdjacentSpaces xs))"
  by (cases xs) auto

lemma collapseFrom_adjacent:
  "noAdjacentSpaces (collapseFrom b s) \<and>
   (b \<longrightarrow> collapseFrom b s = [] \<or> \<not> isSpace (hd (collapseFrom b s)))"
proof (induction s arbitrary: b)
  case Nil
  then show ?case by simp
next
  case (Cons c cs)
  show ?case
  proof (cases "isSpace c")
    case True
    then show ?thesis using Cons.IH [of True]
      by (cases b) (simp_all add: noAdjacentSpaces_Cons)
  next
    case False
    then show ?thesis using Cons.IH [of False]
      by (simp add: noAdjacentSpaces_Cons)
  qed
qed

lemma noAdjacentSpaces_tl: "noAdjacentSpaces s \<Longrightarrow> noAdjacentSpaces (tl s)"
  by (cases s) (auto simp: noAdjacentSpaces_Cons)

lemma noAdjacentSpaces_drop: "noAdjacentSpaces s \<Longrightarrow> noAdjacentSpaces (drop n s)"
proof (induction n arbitrary: s)
  case 0
  then show ?case by simp
next
  case (Suc n)
  have "drop (Suc n) s = drop n (tl s)" by (simp add: drop_Suc)
  then show ?case using Suc.IH [of "tl s"] Suc.prems noAdjacentSpaces_tl by simp
qed

lemma noAdjacentSpaces_take: "noAdjacentSpaces s \<Longrightarrow> noAdjacentSpaces (take n s)"
proof (induction s arbitrary: n)
  case Nil
  then show ?case by simp
next
  case (Cons a s)
  show ?case
  proof (cases n)
    case 0
    then show ?thesis by simp
  next
    case (Suc m)
    show ?thesis
    proof (cases "take m s = []")
      case True
      have "take n (a # s) = [a]" unfolding Suc take_Suc_Cons True by (rule refl)
      then show ?thesis by simp
    next
      case False
      then have ne: "s \<noteq> []" and m: "m \<noteq> 0" by auto
      then have hd: "hd (take m s) = hd s" by (cases s; cases m) auto
      have tail: "\<not> (isSpace a \<and> isSpace (hd s))" "noAdjacentSpaces s"
        using Cons.prems ne by (simp_all add: noAdjacentSpaces_Cons)
      have "noAdjacentSpaces (take m s)" using tail(2) by (rule Cons.IH)
      then show ?thesis using Suc False hd tail(1) by (simp add: noAdjacentSpaces_Cons)
    qed
  qed
qed

lemma trim_take_drop: "\<exists>n m. trim s = take n (drop m s)"
proof -
  let ?u = "dropWhile isSpace s"
  have u: "?u = drop (length (takeWhile isSpace s)) s" by (rule dropWhile_eq_drop)
  have "dropWhile isSpace (rev ?u) = drop (length (takeWhile isSpace (rev ?u))) (rev ?u)"
    by (rule dropWhile_eq_drop)
  then have "rev (dropWhile isSpace (rev ?u)) =
      take (length ?u - length (takeWhile isSpace (rev ?u))) ?u"
    by (simp add: drop_rev)
  then show ?thesis unfolding trim_def using u by metis
qed

lemma last_dropWhile: "dropWhile P xs \<noteq> [] \<Longrightarrow> last (dropWhile P xs) = last xs"
  by (induction xs) (auto split: if_splits)

lemma trim_ends: "trim s = [] \<or> (\<not> isSpace (hd (trim s)) \<and> \<not> isSpace (last (trim s)))"
proof (cases "trim s = []")
  case True
  then show ?thesis by simp
next
  case False
  let ?u = "dropWhile isSpace s"
  let ?w = "dropWhile isSpace (rev ?u)"
  have w: "?w \<noteq> []" using False by (simp add: trim_def)
  have u: "?u \<noteq> []"
  proof
    assume e: "?u = []"
    have "?w = []" unfolding e by simp
    then show False using w by blast
  qed
  have a: "\<not> isSpace (hd ?w)" using w by (rule hd_dropWhile)
  have b: "\<not> isSpace (hd ?u)" using u by (rule hd_dropWhile)
  have "last ?w = last (rev ?u)" using w by (rule last_dropWhile)
  then have c: "last ?w = hd ?u" using u by (simp add: last_rev)
  have "hd (trim s) = last ?w" using w by (simp add: trim_def hd_rev)
  moreover have "last (trim s) = hd ?w" using w by (simp add: trim_def last_rev)
  ultimately show ?thesis using a b c by simp
qed

lemma singleSpaced_normalized: "singleSpaced (trim (collapseSpaces s))"
proof -
  obtain n m where t: "trim (collapseSpaces s) = take n (drop m (collapseSpaces s))"
    using trim_take_drop by blast
  have "noAdjacentSpaces (collapseSpaces s)"
    using collapseFrom_adjacent [of False s] by (simp add: collapseSpaces_def)
  then have a: "noAdjacentSpaces (trim (collapseSpaces s))"
    unfolding t by (intro noAdjacentSpaces_take noAdjacentSpaces_drop)
  have "list_all (\<lambda>c. isSpace c \<longrightarrow> c = 32) (collapseSpaces s)"
    unfolding collapseSpaces_def by (rule collapseFrom_chars)
  then have b: "list_all (\<lambda>c. isSpace c \<longrightarrow> c = 32) (trim (collapseSpaces s))"
    unfolding t list_all_iff by (meson in_set_dropD in_set_takeD)
  show ?thesis unfolding singleSpaced_def using a b trim_ends by blast
qed

lemma exteriors_shape:
  assumes "kw \<in> set exteriors"
  shows "kw \<noteq> [] \<and> isWordChar (hd kw) \<and> isWordChar (last kw)"
  using assms by (auto simp: exteriors_def str_def isWordChar_def isDigit_def)

text \<open>
  C7 (amended). Let a label hold one occurrence \<open>occ\<close> of a tier keyword \<open>kw\<close>, in any
  mix of upper and lower case, between \<open>pre\<close> and \<open>post\<close>, no other occurrence of it and
  none of the other four keywords. Then the tier is \<open>kw\<close>. If the occurrence stands at
  word boundaries, the name is \<open>pre\<close> followed by \<open>post\<close>, white space collapsed and
  trimmed: exactly the occurrence is removed. If a word character touches the occurrence,
  nothing is removed and the name is the whole label, white space collapsed and trimmed.
  A label that includes none of the five keywords gets the tier Unknown and itself, white
  space collapsed and trimmed, as name. In every case the name has single spaces only and
  none at either end.
\<close>

theorem classifier_single_keyword:
  assumes "kw \<in> set exteriors"
    and "map canonicalize occ = map canonicalize kw"
    and "\<forall>i < length (pre @ occ @ post). i \<noteq> length pre \<longrightarrow>
           \<not> matchesIgnoreCase kw (drop i (pre @ occ @ post))"
    and "\<forall>other \<in> set exteriors. other \<noteq> kw \<longrightarrow>
           \<not> stringIncludes (toLowerCase (pre @ occ @ post)) (toLowerCase other)"
    and "\<forall>e \<in> set exteriors. \<not> stringIncludes (toLowerCase plain) (toLowerCase e)"
  shows "extractNameAndExterior (pre @ occ @ post) =
           (trim (collapseSpaces (trim (if atBoundary pre post then pre @ post
                                        else pre @ occ @ post))), kw) \<and>
         singleSpaced (fst (extractNameAndExterior (pre @ occ @ post))) \<and>
         extractNameAndExterior plain = (trim (collapseSpaces plain), str ''Unknown'') \<and>
         singleSpaced (fst (extractNameAndExterior plain))"
proof -
  let ?label = "pre @ occ @ post"
  have sh: "kw \<noteq> []" "isWordChar (hd kw)" "isWordChar (last kw)"
    using exteriors_shape [OF assms(1)] by simp_all
  have "toLowerCase ?label = toLowerCase pre @ toLowerCase kw @ toLowerCase post"
    using toLowerCase_variant [OF assms(2)] by simp
  then have inc: "stringIncludes (toLowerCase ?label) (toLowerCase kw)"
    using stringIncludes_middle by simp
  have fe: "findExterior ?label = Some kw"
    unfolding findExterior_def
    using assms(1) inc assms(4) by (intro find_only) simp_all
  have rk: "removeKeyword kw None ?label =
              (if atBoundary pre post then pre @ post else pre @ occ @ post)"
    by (rule removeKeyword_single [OF sh(1) assms(2) sh(2) sh(3) assms(3)])
  have a: "extractNameAndExterior ?label =
           (trim (collapseSpaces (trim (if atBoundary pre post then pre @ post
                                        else pre @ occ @ post))), kw)"
    using fe rk by (simp add: extractNameAndExterior_def)
  have b: "singleSpaced (fst (extractNameAndExterior ?label))"
    unfolding a by (simp add: singleSpaced_normalized)
  have "findExterior plain = None"
    unfolding findExterior_def using assms(5) by (intro find_None_all) simp
  then have c: "extractNameAndExterior plain = (trim (collapseSpaces plain), str ''Unknown'')"
    by (simp add: extractNameAndExterior_def)
  have d: "singleSpaced (fst (extractNameAndExterior plain))"
    unfolding c by (simp add: singleSpaced_normalized)
  show ?thesis using a b c d by simp
qed

lemma all_less_11: "(\<forall>i < (11::nat). P i) \<longleftrightarrow>
    P 0 \<and> P 1 \<and> P 2 \<and> P 3 \<and> P 4 \<and> P 5 \<and> P 6 \<and> P 7 \<and> P 8 \<and> P 9 \<and> P 10"
proof -
  have "(\<forall>i < (11::nat). P i) \<longleftrightarrow> (\<forall>i \<in> set [0..<11]. P i)" by auto
  also have "[0..<11] = [0, 1, 2, 3, 4, 5, 6, 7, 8, 9, 10::nat]"
    by (simp add: upt_rec)
  finally show ?thesis by simp
qed

theorem classifier_single_keyword_witness:
  "extractNameAndExterior (str ''A well-worn'') = (str ''A'', str ''Well-Worn'') \<and>
   extractNameAndExterior (str ''AK'') = (str ''AK'', str ''Unknown'')"
proof -
  let ?kw = "str ''Well-Worn''"
  let ?pre = "str ''A ''"
  let ?occ = "str ''well-worn''"
  have l: "str ''A well-worn'' = ?pre @ ?occ @ []" by (simp add: str_def)
  have h1: "?kw \<in> set exteriors" by (simp add: exteriors_def)
  have h2: "map canonicalize ?occ = map canonicalize ?kw"
    by (simp add: str_def canonicalize_def)
  have h3: "\<forall>i < length (?pre @ ?occ @ []). i \<noteq> length ?pre \<longrightarrow>
           \<not> matchesIgnoreCase ?kw (drop i (?pre @ ?occ @ []))"
  proof -
    have n: "length (?pre @ ?occ @ []) = 11" by (simp add: str_def)
    show ?thesis unfolding n all_less_11
      by (simp add: str_def canonicalize_def)
  qed
  have h4: "\<forall>other \<in> set exteriors. other \<noteq> ?kw \<longrightarrow>
           \<not> stringIncludes (toLowerCase (?pre @ ?occ @ [])) (toLowerCase other)"
    by (simp add: exteriors_def str_def toLowerCase_def lowerCodePoint_def)
  have h5: "\<forall>e \<in> set exteriors. \<not> stringIncludes (toLowerCase (str ''AK'')) (toLowerCase e)"
    by (simp add: exteriors_def str_def toLowerCase_def lowerCodePoint_def)
  note t = classifier_single_keyword [OF h1 h2 h3 h4 h5]
  have b: "atBoundary ?pre []" by (simp add: atBoundary_def str_def isWordChar_def isDigit_def)
  have "extractNameAndExterior (?pre @ ?occ @ []) =
          (trim (collapseSpaces (trim (?pre @ []))), ?kw)"
    using t b by simp
  moreover have "trim (collapseSpaces (trim (?pre @ []))) = str ''A''"
    by (simp add: trim_def collapseSpaces_def str_def isSpace_def)
  moreover have "extractNameAndExterior (str ''AK'') = (trim (collapseSpaces (str ''AK'')), str ''Unknown'')"
    using t by simp
  moreover have "trim (collapseSpaces (str ''AK'')) = str ''AK''"
    by (simp add: trim_def collapseSpaces_def str_def isSpace_def)
  ultimately show ?thesis unfolding l by simp
qed

text \<open>
  The claim as stated fails for a keyword inside a longer word: "Factory Newcomer"
  includes the keyword "Factory New" and gets that tier, but the keyword is not removed
  from the name.
\<close>

theorem keyword_inside_word_counterexample:
  "findExterior (str ''Factory Newcomer'') = Some (str ''Factory New'') \<and>
   extractNameAndExterior (str ''Factory Newcomer'') = (str ''Factory Newcomer'', str ''Factory New'')"
proof -
  have a: "findExterior (str ''Factory Newcomer'') = Some (str ''Factory New'')"
    by (simp add: findExterior_def exteriors_def str_def toLowerCase_def lowerCodePoint_def)
  have b: "removeKeyword (str ''Factory New'') None (str ''Factory Newcomer'') =
             str ''Factory Newcomer''"
    by (simp add: str_def removeKeyword.simps keywordAt_def wordBoundary_def isWordOpt_def
        isWordChar_def isDigit_def canonicalize_def)
  have c: "trim (collapseSpaces (trim (str ''Factory Newcomer''))) = str ''Factory Newcomer''"
    by (simp add: str_def trim_def collapseSpaces_def isSpace_def)
  show ?thesis using a b c by (simp add: extractNameAndExterior_def)
qed

section \<open>Properties of the listing extractor\<close>

lemma collectResults_eq:
  "collectResults sc gen cnt k items rs =
     items @ map (\<lambda>j. resultCandidate sc gen (k + j) (rs ! j))
               [0..<min (length rs) (nat (cnt - int (length items)))]"
proof (induction rs arbitrary: k items)
  case Nil
  then show ?case by simp
next
  case (Cons r rs)
  show ?case
  proof (cases "int (length items) \<ge> cnt")
    case True
    then show ?thesis by simp
  next
    case False
    then obtain m where m: "nat (cnt - int (length items)) = Suc m"
      by (cases "nat (cnt - int (length items))") auto
    then have m': "nat (cnt - int (length (items @ [resultCandidate sc gen k r]))) = m"
      by simp
    have up: "[0..<Suc (min (length rs) m)] = 0 # map Suc [0..<min (length rs) m]"
      by (simp add: upt_conv_Cons map_Suc_upt del: upt_Suc)
    have "collectResults sc gen cnt k items (r # rs) =
            collectResults sc gen cnt (Suc k) (items @ [resultCandidate sc gen k r]) rs"
      using False by simp
    also have "\<dots> = (items @ [resultCandidate sc gen k r]) @
            map (\<lambda>j. resultCandidate sc gen (Suc k + j) (rs ! j)) [0..<min (length rs) m]"
      unfolding Cons.IH m' by simp
    also have "\<dots> = items @ map (\<lambda>j. resultCandidate sc gen (k + j) ((r # rs) ! j))
               [0..<min (length (r # rs)) (nat (cnt - int (length items)))]"
      unfolding m by (simp add: up comp_def del: upt_Suc)
    finally show ?thesis .
  qed
qed

lemma collectRows_eq:
  "collectRows sc gen cnt k items rs =
     items @ map (\<lambda>j. rowCandidate sc gen (k + j) (rs ! j))
               [0..<min (length rs) (nat (cnt - int (length items)))]"
proof (induction rs arbitrary: k items)
  case Nil
  then show ?case by simp
next
  case (Cons r rs)
  show ?case
  proof (cases "int (length items) \<ge> cnt")
    case True
    then show ?thesis by simp
  next
    case False
    then obtain m where m: "nat (cnt - int (length items)) = Suc m"
      by (cases "nat (cnt - int (length items))") auto
    then have m': "nat (cnt - int (length (items @ [rowCandidate sc gen k r]))) = m"
      by simp
    have up: "[0..<Suc (min (length rs) m)] = 0 # map Suc [0..<min (length rs) m]"
      by (simp add: upt_conv_Cons map_Suc_upt del: upt_Suc)
    have "collectRows sc gen cnt k items (r # rs) =
            collectRows sc gen cnt (Suc k) (items @ [rowCandidate sc gen k r]) rs"
      using False by simp
    also have "\<dots> = (items @ [rowCandidate sc gen k r]) @
            map (\<lambda>j. rowCandidate sc gen (Suc k + j) (rs ! j)) [0..<min (length rs) m]"
      unfolding Cons.IH m' by simp
    also have "\<dots> = items @ map (\<lambda>j. rowCandidate sc gen (k + j) ((r # rs) ! j))
               [0..<min (length (r # rs)) (nat (cnt - int (length items)))]"
      unfolding m by (simp add: up comp_def del: upt_Suc)
    finally show ?thesis .
  qed
qed

lemma filterExterior_keeps: "filterExterior options items = filter (keepsExterior options) items"
proof (cases "exteriorFilter options")
  case None
  then show ?thesis by (simp add: filterExterior_def keepsExterior_def)
next
  case (Some wanted)
  then have k: "keepsExterior options =
      (\<lambda>c. wanted = [] \<or> toLowerCase (itemExterior c) = toLowerCase wanted)"
    by (simp add: keepsExterior_def fun_eq_iff)
  show ?thesis unfolding k using Some by (simp add: filterExterior_def)
qed

lemma set_sortByPrice [simp]: "set (sortByPrice options items) = set items"
  by (simp add: sortByPrice_def)

lemma set_sliceTo: "set (sliceTo n xs) \<subseteq> set xs"
  by (auto simp: sliceTo_def dest: in_set_takeD)

lemma set_postProcess: "set (postProcess options items) \<subseteq> set items"
  unfolding postProcess_def filterExterior_keeps
  using set_sliceTo [of "count options" "sortByPrice options (filter (keepsExterior options) items)"]
  by auto

lemma collectListings_positive:
  "\<forall>c \<in> set items. itemPrice c > 0 \<Longrightarrow>
     \<forall>c \<in> set (collectListings sc gen info cnt k items rows). itemPrice c > 0"
proof (induction rows arbitrary: k items)
  case Nil
  then show ?case by simp
next
  case (Cons row rows)
  show ?case
  proof (cases "int (length items) \<ge> cnt")
    case True
    then show ?thesis using Cons.prems by simp
  next
    case False
    let ?pc = "parsePrice sc (trim (priceText row))"
    show ?thesis
    proof (cases "fst ?pc > 0")
      case True
      have "\<forall>c \<in> set (items @ [listingCandidate gen info k row ?pc]). itemPrice c > 0"
        using Cons.prems True by (simp add: listingCandidate_def)
      from Cons.IH [OF this] show ?thesis using False True by (simp add: Let_def)
    next
      case neg: False
      from Cons.IH [OF Cons.prems] show ?thesis using False neg by (simp add: Let_def)
    qed
  qed
qed

text \<open>
  C4 (amended). The search-results strategy builds a candidate from every result element
  (or fallback row) up to its count cap, whatever the price, and its post-processing
  removes candidates only through the tier filter and the final truncation: a candidate
  with price 0 is not dropped for its price. The direct-listing strategy pushes a row only
  if its normalized price is greater than 0, so all its candidates have a positive price.
\<close>

theorem extractor_price_handling:
  "searchCandidates sc gen options (JsonResults results) =
     map (\<lambda>k. resultCandidate sc gen k (results ! k))
       [0..<min (length results) (nat (searchCount options))] \<and>
   searchCandidates sc gen options (ResultsHtml rows) =
     map (\<lambda>k. rowCandidate sc gen k (rows ! k))
       [0..<min (length rows) (nat (searchCount options))] \<and>
   scrapeSearchResults sc gen options response =
     sliceTo (count options)
       (sortByPrice options (filter (keepsExterior options) (searchCandidates sc gen options response))) \<and>
   set (sortByPrice options (filter (keepsExterior options) items)) =
     {c \<in> set items. keepsExterior options c} \<and>
   (\<forall>c \<in> set (scrapeItemListings sc gen options page). itemPrice c > 0)"
proof -
  have a: "searchCandidates sc gen options (JsonResults results) =
     map (\<lambda>k. resultCandidate sc gen k (results ! k))
       [0..<min (length results) (nat (searchCount options))]"
    by (simp add: searchCandidates_def collectResults_eq)
  have b: "searchCandidates sc gen options (ResultsHtml rows) =
     map (\<lambda>k. rowCandidate sc gen k (rows ! k))
       [0..<min (length rows) (nat (searchCount options))]"
    by (simp add: searchCandidates_def collectRows_eq)
  have c: "scrapeSearchResults sc gen options response =
     sliceTo (count options)
       (sortByPrice options (filter (keepsExterior options) (searchCandidates sc gen options response)))"
    by (simp add: scrapeSearchResults_def postProcess_def filterExterior_keeps)
  have d: "set (sortByPrice options (filter (keepsExterior options) items)) =
     {c \<in> set items. keepsExterior options c}"
    by auto
  have "\<forall>c \<in> set (listingCandidates sc gen options page). itemPrice c > 0"
    unfolding listingCandidates_def by (rule collectListings_positive) simp
  then have e: "\<forall>c \<in> set (scrapeItemListings sc gen options page). itemPrice c > 0"
    unfolding scrapeItemListings_def using set_postProcess by blast
  show ?thesis using a b c d e by blast
qed

lemma trim_sold: "trim (str ''Sold!'') = str ''Sold!''"
  by (simp add: trim_def str_def isSpace_def)

lemma trim_five: "trim (str ''$5.00'') = str ''$5.00''"
  by (simp add: trim_def str_def isSpace_def)

lemma listings_example:
  "map itemPrice (scrapeItemListings unicodeSc exampleGen exampleOptions
      (examplePage [exampleRow ''Sold!'', exampleRow ''$5.00''])) = [5]"
  by (simp add: exampleRow_def trim_sold trim_five parsePrice_sold parsePrice_five
      scrapeItemListings_def listingCandidates_def examplePage_def exampleOptions_def
      postProcess_def filterExterior_def sortByPrice_def sliceTo_def Let_def
      listingCandidate_def)

lemma str_nonempty: "str (c # cs) \<noteq> []"
  by (simp add: str_def)

lemma search_example:
  "map itemPrice (scrapeSearchResults unicodeSc exampleGen exampleOptions
      (JsonResults [exampleResult ''$5.00'', exampleResult ''Sold!''])) = [0, 5]"
  by (simp add: exampleResult_def parsePrice_sold parsePrice_five
      scrapeSearchResults_def searchCandidates_def searchCount_def exampleOptions_def
      postProcess_def filterExterior_def sortByPrice_def sliceTo_def Let_def
      resultCandidate_def orElse_def str_nonempty)

theorem extractor_price_handling_witness:
  "map itemPrice (scrapeItemListings unicodeSc exampleGen exampleOptions
      (examplePage [exampleRow ''Sold!'', exampleRow ''$5.00''])) = [5] \<and>
   map itemPrice (scrapeSearchResults unicodeSc exampleGen exampleOptions
      (JsonResults [exampleResult ''$5.00'', exampleResult ''Sold!''])) = [0, 5] \<and>
   length (searchCandidates unicodeSc exampleGen exampleOptions
      (JsonResults [exampleResult ''$5.00'', exampleResult ''Sold!''])) = 2"
proof -
  let ?out = "scrapeItemListings unicodeSc exampleGen exampleOptions
      (examplePage [exampleRow ''Sold!'', exampleRow ''$5.00''])"
  let ?rs = "[exampleResult ''$5.00'', exampleResult ''Sold!'']"
  note t = extractor_price_handling [of unicodeSc exampleGen exampleOptions ?rs "[]"
      "JsonResults ?rs" "[]" "examplePage [exampleRow ''Sold!'', exampleRow ''$5.00'']"]
  have "searchCandidates unicodeSc exampleGen exampleOptions (JsonResults ?rs) =
     map (\<lambda>k. resultCandidate unicodeSc exampleGen k (?rs ! k))
       [0..<min (length ?rs) (nat (searchCount exampleOptions))]"
    using t by blast
  then have n: "length (searchCandidates unicodeSc exampleGen exampleOptions (JsonResults ?rs)) = 2"
    by (simp add: searchCount_def exampleOptions_def)
  show ?thesis using n listings_example search_example by simp
qed

text \<open>
  The claim as stated fails for the direct-listing strategy: a page whose only listing
  row has the price text "Sold!" (normalized price 0) yields no candidate, with no tier
  filter and a count of 10.
\<close>

theorem zero_price_listing_counterexample:
  "fst (parsePrice unicodeSc (trim (priceText (exampleRow ''Sold!'')))) = 0 \<and>
   scrapeItemListings unicodeSc exampleGen exampleOptions (examplePage [exampleRow ''Sold!'']) = []"
  by (simp add: exampleRow_def trim_sold parsePrice_sold scrapeItemListings_def
      listingCandidates_def examplePage_def exampleOptions_def postProcess_def
      filterExterior_def sortByPrice_def sliceTo_def Let_def)

text \<open>
  C5. For a JSON payload with one result element and a count of 10, the first scraper
  (steam-scraper.ts) collects two candidates and returns both, where the current scraper
  collects one: the loop body of the first scraper pushes every result twice.
\<close>

theorem duplicate_push_evaluation:
  "length (legacySearchCandidates unicodeSc exampleOptions (JsonResults [exampleResult ''$5.00''])) = 2 \<and>
   length (scrapeMarketPage unicodeSc exampleOptions (JsonResults [exampleResult ''$5.00''])) = 2 \<and>
   length (searchCandidates unicodeSc exampleGen exampleOptions (JsonResults [exampleResult ''$5.00''])) = 1"
  by (simp add: legacySearchCandidates_def searchCandidates_def scrapeMarketPage_def
      searchCount_def exampleOptions_def Let_def postProcess_def filterExterior_def
      sortByPrice_def sliceTo_def)

end
